theory Spec2Isabelle
  imports Main "HOL-Library.Sublist" "HOL-Library.AList"
begin

section \<open>The matcher engine of ScenarioInterpreter\<close>

text \<open>
  The three patch scripts write Java methods into \<^verbatim>\<open>ScenarioInterpreter.java\<close>:
  \<^verbatim>\<open>add_helpers.py\<close> adds the matcher helpers over \<^verbatim>\<open>JsonNode\<close>,
  \<^verbatim>\<open>fix_value_types.py\<close> replaces five of them by versions over \<^verbatim>\<open>Value\<close>
  (\<^verbatim>\<open>matchExtendedConstraint\<close>, \<^verbatim>\<open>matchDefaultObject\<close>, \<^verbatim>\<open>matchNode\<close>,
  \<^verbatim>\<open>matchArrayBody\<close>, \<^verbatim>\<open>matchObjectBody\<close>), and \<^verbatim>\<open>fix_combined_matchers.py\<close>
  adds the predicate builders. The embedding follows the Java text the scripts leave
  in the file: the \<^verbatim>\<open>Value\<close> versions of the five replaced methods,
  \<^verbatim>\<open>matchString\<close> and \<^verbatim>\<open>matchComplexString\<close> as \<^verbatim>\<open>add_helpers.py\<close> wrote them,
  and the two builders.

  A Java reference that the code tests against \<^verbatim>\<open>null\<close> is an \<open>option\<close>; a
  method that can throw returns \<open>error + bool\<close>, with \<open>Inl\<close> the exception.
\<close>

subsection \<open>Values and decisions\<close>

text \<open>A \<^verbatim>\<open>BigDecimal\<close> is its unscaled value and its scale.\<close>

type_synonym BigDecimal = "int \<times> int"

datatype Value =
    UndefinedValue
  | NullValue
  | BooleanValue bool
  | NumberValue BigDecimal
  | TextValue string
  | ArrayValue "Value list"
  | ObjectValue "(string \<times> Value) list"

datatype Decision = PERMIT | DENY | INDETERMINATE | NOT_APPLICABLE

record AuthorizationDecision =
  decision :: Decision
  obligations :: "Value list option"
  advice :: "Value list option"
  resource :: "Value option"

datatype error =
    NullPointerException
  | NumberFormatException
  | PatternSyntaxException
  | IndexOutOfBoundsException
  | IllegalArgumentException string

subsection \<open>The matcher syntax tree\<close>

text \<open>
  One datatype per parser context class that a method dispatches on, one constructor
  per subclass the method names, and one more constructor for any other subclass
  (the branch each \<^verbatim>\<open>instanceof\<close> chain falls through to). A token is the text
  \<^verbatim>\<open>getText()\<close> returns; an optional child is an \<open>option\<close>; the
  \<^verbatim>\<open>caseInsensitive\<close> token is a flag that holds when the token is present.
\<close>

datatype StringMatcher =
    StringIsNull
  | StringIsBlank
  | StringIsEmpty
  | StringIsNullOrEmpty
  | StringIsNullOrBlank
  | StringEqualCompressedWhitespace string
  | StringEqualIgnoringCase string
  | StringMatchesRegex string
  | StringStartsWith string bool
  | StringEndsWith string bool
  | StringContains string bool
  | StringContainsInOrder "string list"
  | StringWithLength string
  | OtherStringMatcher

datatype StringOrStringMatcher =
    PlainStringMatcher string
  | ComplexStringMatcher StringMatcher
  | OtherStringOrStringMatcher

datatype BooleanLiteral = TrueLiteral | FalseLiteral

datatype NodeMatcher =
    NullMatcher
  | TextMatcher "StringOrStringMatcher option"
  | NumberMatcher "string option"
  | BooleanMatcher "BooleanLiteral option"
  | ArrayMatcher "NodeMatcher list option"
  | ObjectMatcher "(string \<times> NodeMatcher) list option"
  | OtherNodeMatcher

datatype DefaultObjectMatcher =
    ExactMatchObjectMatcher string
  | MatchingObjectMatcher NodeMatcher
  | OtherDefaultObjectMatcher

datatype ExtendedObjectMatcher =
    DefaultExtendedMatcher DefaultObjectMatcher
  | KeyValueObjectMatcher string "NodeMatcher option"
  | OtherExtendedObjectMatcher

text \<open>
  The last constructor carries the simple class name of the unknown context, which
  the builder writes into its exception.
\<close>

datatype AuthorizationDecisionMatcher =
    AnyDecisionMatcher
  | IsDecisionMatcher string
  | HasObligationOrAdviceMatcher string "ExtendedObjectMatcher option"
  | HasResourceMatcher "DefaultObjectMatcher option"
  | OtherDecisionMatcher string

subsection \<open>Collaborators outside the patched methods\<close>

text \<open>
  The methods call code that the scripts do not contain: \<^verbatim>\<open>unquoteString\<close>,
  \<^verbatim>\<open>ValueConverter.convert\<close>, \<^verbatim>\<open>Value.equals\<close> and \<^verbatim>\<open>parseDecisionType\<close> of the
  repository, and of the Java library the conversion to \<^verbatim>\<open>double\<close> with its
  \<^verbatim>\<open>==\<close>, the regular expression engine and the case mappings of \<^verbatim>\<open>String\<close>.
  They are parameters of every function below: \<open>'d\<close> is the type of doubles,
  \<open>'p\<close> the type of compiled patterns. \<open>parseDouble\<close> and \<open>patternCompile\<close> return
  \<open>None\<close> where the Java method throws (\<^verbatim>\<open>NumberFormatException\<close>,
  \<^verbatim>\<open>PatternSyntaxException\<close>).
\<close>

record ('d, 'p) externals =
  unquoteString :: "string \<Rightarrow> string"
  convertValue :: "string \<Rightarrow> Value"
  valueEquals :: "Value \<Rightarrow> Value option \<Rightarrow> bool"
  parseDecisionType :: "string \<Rightarrow> Decision"
  parseDouble :: "string \<Rightarrow> 'd option"
  doubleValue :: "BigDecimal \<Rightarrow> 'd"
  doubleEq :: "'d \<Rightarrow> 'd \<Rightarrow> bool"
  patternCompile :: "string \<Rightarrow> 'p option"
  patternMatches :: "'p \<Rightarrow> string \<Rightarrow> bool"
  toLowerCase :: "string \<Rightarrow> string"
  equalsIgnoreCase :: "string \<Rightarrow> string \<Rightarrow> bool"

subsection \<open>The methods of java.lang.String and Integer the matchers use\<close>

text \<open>
  \<^verbatim>\<open>Character.isWhitespace\<close> on the characters a \<open>char\<close> can hold: the controls
  9 to 13 and 28 to 31, and the space.
\<close>

definition isWhitespace :: "char \<Rightarrow> bool" where
  "isWhitespace c =
     (let n = (of_char c :: nat) in (9 \<le> n \<and> n \<le> 13) \<or> (28 \<le> n \<and> n \<le> 32))"

definition isBlank :: "string \<Rightarrow> bool" where
  "isBlank s = list_all isWhitespace s"

text \<open>The class \<^verbatim>\<open>\s\<close> of java.util.regex: space, tab, line feed, 0x0B, form feed, return.\<close>

definition isRegexSpace :: "char \<Rightarrow> bool" where
  "isRegexSpace c = (let n = (of_char c :: nat) in (9 \<le> n \<and> n \<le> 13) \<or> n = 32)"

text \<open>
  \<^verbatim>\<open>text.replaceAll("\\s+", " ")\<close> (the Python literal \<^verbatim>\<open>"\\\\s+"\<close> of the script
  is the Java literal \<^verbatim>\<open>"\\s+"\<close>): every maximal run of \<^verbatim>\<open>\s\<close> characters becomes
  one space.
\<close>

function compressWhitespace :: "string \<Rightarrow> string" where
  "compressWhitespace [] = []"
| "compressWhitespace (c # cs) =
     (if isRegexSpace c then CHR '' '' # compressWhitespace (dropWhile isRegexSpace cs)
      else c # compressWhitespace cs)"
  by pat_completeness auto
termination
  by (relation "measure length") (auto simp: less_Suc_eq_le length_dropWhile_le)

text \<open>
  \<^verbatim>\<open>text.indexOf(str)\<close>: the least index at which \<open>str\<close> starts in \<open>text\<close>,
  \<open>None\<close> for the Java result \<open>-1\<close>.
\<close>

fun indexOf :: "string \<Rightarrow> string \<Rightarrow> nat option" where
  "indexOf [] str = (if str = [] then Some 0 else None)"
| "indexOf (c # cs) str =
     (if prefix str (c # cs) then Some 0 else map_option Suc (indexOf cs str))"

text \<open>
  \<^verbatim>\<open>text.indexOf(str, fromIndex)\<close> for \<open>fromIndex \<ge> 0\<close>: a start beyond the end
  of the text is the end of the text.
\<close>

definition indexOfFrom :: "string \<Rightarrow> string \<Rightarrow> nat \<Rightarrow> nat option" where
  "indexOfFrom text str fromIndex =
     (let start = min fromIndex (length text)
      in map_option (\<lambda>i. start + i) (indexOf (drop start text) str))"

definition javaContains :: "string \<Rightarrow> string \<Rightarrow> bool" where
  "javaContains text str = (indexOf text str \<noteq> None)"

text \<open>
  \<^verbatim>\<open>Integer.parseInt\<close>: an optional sign, then at least one decimal digit, and a
  value in the range of \<^verbatim>\<open>int\<close>; \<open>None\<close> is \<^verbatim>\<open>NumberFormatException\<close>.
\<close>

definition isDigit :: "char \<Rightarrow> bool" where
  "isDigit c = (let n = (of_char c :: nat) in 48 \<le> n \<and> n \<le> 57)"

definition digitsValue :: "string \<Rightarrow> nat" where
  "digitsValue s = foldl (\<lambda>acc c. 10 * acc + (of_char c - 48)) 0 s"

definition parseInt :: "string \<Rightarrow> int option" where
  "parseInt s =
     (case s of
        [] \<Rightarrow> None
      | c # cs \<Rightarrow>
          if c = CHR ''-'' then
            (if cs \<noteq> [] \<and> list_all isDigit cs \<and> digitsValue cs \<le> 2147483648
             then Some (- int (digitsValue cs)) else None)
          else if c = CHR ''+'' then
            (if cs \<noteq> [] \<and> list_all isDigit cs \<and> digitsValue cs \<le> 2147483647
             then Some (int (digitsValue cs)) else None)
          else
            (if list_all isDigit s \<and> digitsValue s \<le> 2147483647
             then Some (int (digitsValue s)) else None))"

subsection \<open>matchComplexString and matchString\<close>

text \<open>
  The loop of the \<^verbatim>\<open>StringContainsInOrderContext\<close> branch: \<open>currentPos\<close> is the
  loop variable, the list holds the tokens still to visit. \<^verbatim>\<open>text.indexOf\<close> on a
  \<^verbatim>\<open>null\<close> text throws.
\<close>

fun containsInOrderLoop ::
  "('d, 'p) externals \<Rightarrow> string option \<Rightarrow> nat \<Rightarrow> string list \<Rightarrow> error + bool" where
  "containsInOrderLoop E text currentPos [] = Inr True"
| "containsInOrderLoop E text currentPos (substringToken # rest) =
     (let substring = unquoteString E substringToken in
      case text of
        None \<Rightarrow> Inl NullPointerException
      | Some t \<Rightarrow>
          (case indexOfFrom t substring currentPos of
             None \<Rightarrow> Inr False
           | Some index \<Rightarrow> containsInOrderLoop E text (index + length substring) rest))"

fun matchComplexString ::
  "('d, 'p) externals \<Rightarrow> string option \<Rightarrow> StringMatcher \<Rightarrow> error + bool" where
  "matchComplexString E text StringIsNull = Inr (text = None)"
| "matchComplexString E text StringIsBlank =
     Inr (case text of None \<Rightarrow> False | Some t \<Rightarrow> isBlank t)"
| "matchComplexString E text StringIsEmpty =
     Inr (case text of None \<Rightarrow> False | Some t \<Rightarrow> t = [])"
| "matchComplexString E text StringIsNullOrEmpty =
     Inr (case text of None \<Rightarrow> True | Some t \<Rightarrow> t = [])"
| "matchComplexString E text StringIsNullOrBlank =
     Inr (case text of None \<Rightarrow> True | Some t \<Rightarrow> isBlank t)"
| "matchComplexString E text (StringEqualCompressedWhitespace matchValue) =
     (let expected = unquoteString E matchValue in
      case text of
        None \<Rightarrow> Inl NullPointerException
      | Some t \<Rightarrow> Inr (compressWhitespace t = expected))"
| "matchComplexString E text (StringEqualIgnoringCase matchValue) =
     (let expected = unquoteString E matchValue in
      case text of
        None \<Rightarrow> Inl NullPointerException
      | Some t \<Rightarrow> Inr (equalsIgnoreCase E t expected))"
| "matchComplexString E text (StringMatchesRegex regexToken) =
     (let regex = unquoteString E regexToken in
      case patternCompile E regex of
        None \<Rightarrow> Inl PatternSyntaxException
      | Some p \<Rightarrow>
          (case text of
             None \<Rightarrow> Inl NullPointerException
           | Some t \<Rightarrow> Inr (patternMatches E p t)))"
| "matchComplexString E text (StringStartsWith prefixToken caseInsensitive) =
     (let pre = unquoteString E prefixToken in
      case text of
        None \<Rightarrow> Inl NullPointerException
      | Some t \<Rightarrow>
          Inr (if caseInsensitive then prefix (toLowerCase E pre) (toLowerCase E t)
               else prefix pre t))"
| "matchComplexString E text (StringEndsWith postfixToken caseInsensitive) =
     (let postfix = unquoteString E postfixToken in
      case text of
        None \<Rightarrow> Inl NullPointerException
      | Some t \<Rightarrow>
          Inr (if caseInsensitive then suffix (toLowerCase E postfix) (toLowerCase E t)
               else suffix postfix t))"
| "matchComplexString E text (StringContains textToken caseInsensitive) =
     (let substring = unquoteString E textToken in
      case text of
        None \<Rightarrow> Inl NullPointerException
      | Some t \<Rightarrow>
          Inr (if caseInsensitive then javaContains (toLowerCase E t) (toLowerCase E substring)
               else javaContains t substring))"
| "matchComplexString E text (StringContainsInOrder substrings) =
     containsInOrderLoop E text 0 substrings"
| "matchComplexString E text (StringWithLength lengthToken) =
     (case parseInt lengthToken of
        None \<Rightarrow> Inl NumberFormatException
      | Some expected \<Rightarrow>
          (case text of
             None \<Rightarrow> Inl NullPointerException
           | Some t \<Rightarrow> Inr (int (length t) = expected)))"
| "matchComplexString E text OtherStringMatcher = Inr False"

fun matchString ::
  "('d, 'p) externals \<Rightarrow> string option \<Rightarrow> StringOrStringMatcher \<Rightarrow> error + bool" where
  "matchString E text (PlainStringMatcher textToken) =
     (let expected = unquoteString E textToken in Inr (Some expected = text))"
| "matchString E text (ComplexStringMatcher stringMatcher) =
     matchComplexString E text stringMatcher"
| "matchString E text OtherStringOrStringMatcher = Inr False"

subsection \<open>matchNode, matchArrayBody and matchObjectBody\<close>

text \<open>
  \<^verbatim>\<open>matchArrayBody\<close> is the size test, then its \<^verbatim>\<open>for\<close> loop, which walks both
  lists by index from 0; the loop function holds the elements and matchers from
  index \<open>i\<close> on. The loop ends with the
  matchers; \<^verbatim>\<open>array.get(i)\<close> beyond the array would throw, which the size test
  before the loop excludes. The loop of \<^verbatim>\<open>matchObjectBody\<close> walks the members;
  \<^verbatim>\<open>containsKey\<close> and \<^verbatim>\<open>get\<close> are lookups in the object's bindings.
\<close>

fun matchNode :: "('d, 'p) externals \<Rightarrow> Value option \<Rightarrow> NodeMatcher \<Rightarrow> error + bool"
  and matchArrayBody ::
    "('d, 'p) externals \<Rightarrow> Value list \<Rightarrow> NodeMatcher list \<Rightarrow> error + bool"
  and matchArrayLoop ::
    "('d, 'p) externals \<Rightarrow> Value list \<Rightarrow> NodeMatcher list \<Rightarrow> error + bool"
  and matchObjectBody ::
    "('d, 'p) externals \<Rightarrow> (string \<times> Value) list \<Rightarrow> (string \<times> NodeMatcher) list
       \<Rightarrow> error + bool"
  where
  "matchNode E node NullMatcher = Inr (node = None \<or> node = Some NullValue)"
| "matchNode E node (TextMatcher stringOrStringMatcher) =
     (case node of
        Some (TextValue t) \<Rightarrow>
          (case stringOrStringMatcher of
             None \<Rightarrow> Inr True
           | Some m \<Rightarrow> matchString E (Some t) m)
      | _ \<Rightarrow> Inr False)"
| "matchNode E node (NumberMatcher number) =
     (case node of
        Some (NumberValue n) \<Rightarrow>
          (case number of
             None \<Rightarrow> Inr True
           | Some numberToken \<Rightarrow>
               (case parseDouble E numberToken of
                  None \<Rightarrow> Inl NumberFormatException
                | Some d \<Rightarrow> Inr (doubleEq E (doubleValue E n) d)))
      | _ \<Rightarrow> Inr False)"
| "matchNode E node (BooleanMatcher booleanLiteral) =
     (case node of
        Some (BooleanValue b) \<Rightarrow>
          (case booleanLiteral of
             None \<Rightarrow> Inr True
           | Some lit \<Rightarrow> (let expected = (lit = TrueLiteral) in Inr (b = expected)))
      | _ \<Rightarrow> Inr False)"
| "matchNode E node (ArrayMatcher arrayMatcherBody) =
     (case node of
        Some (ArrayValue array) \<Rightarrow>
          (case arrayMatcherBody of
             None \<Rightarrow> Inr True
           | Some matchers \<Rightarrow> matchArrayBody E array matchers)
      | _ \<Rightarrow> Inr False)"
| "matchNode E node (ObjectMatcher objectMatcherBody) =
     (case node of
        Some (ObjectValue obj) \<Rightarrow>
          (case objectMatcherBody of
             None \<Rightarrow> Inr True
           | Some members \<Rightarrow> matchObjectBody E obj members)
      | _ \<Rightarrow> Inr False)"
| "matchNode E node OtherNodeMatcher = Inr False"
| "matchArrayBody E array matchers =
     (if length array \<noteq> length matchers then Inr False
      else matchArrayLoop E array matchers)"
| "matchArrayLoop E array [] = Inr True"
| "matchArrayLoop E [] (m # matchers) = Inl IndexOutOfBoundsException"
| "matchArrayLoop E (v # array) (m # matchers) =
     (case matchNode E (Some v) m of
        Inl e \<Rightarrow> Inl e
      | Inr b \<Rightarrow> if \<not> b then Inr False else matchArrayLoop E array matchers)"
| "matchObjectBody E obj [] = Inr True"
| "matchObjectBody E obj ((keyToken, matcher) # members) =
     (let key = unquoteString E keyToken in
      case map_of obj key of
        None \<Rightarrow> Inr False
      | Some v \<Rightarrow>
          (case matchNode E (Some v) matcher of
             Inl e \<Rightarrow> Inl e
           | Inr b \<Rightarrow> if \<not> b then Inr False else matchObjectBody E obj members))"

subsection \<open>matchDefaultObject and matchExtendedConstraint\<close>

fun matchDefaultObject ::
  "('d, 'p) externals \<Rightarrow> Value option \<Rightarrow> DefaultObjectMatcher \<Rightarrow> error + bool" where
  "matchDefaultObject E node (ExactMatchObjectMatcher equalTo) =
     (let expected = convertValue E equalTo in Inr (valueEquals E expected node))"
| "matchDefaultObject E node (MatchingObjectMatcher nodeMatcher) =
     matchNode E node nodeMatcher"
| "matchDefaultObject E node OtherDefaultObjectMatcher = Inr False"

text \<open>
  \<^verbatim>\<open>Stream.anyMatch\<close>: the elements in order, stopping at the first that satisfies
  the predicate; an exception of the predicate leaves the stream.
\<close>

fun anyMatch :: "('a \<Rightarrow> error + bool) \<Rightarrow> 'a list \<Rightarrow> error + bool" where
  "anyMatch p [] = Inr False"
| "anyMatch p (c # cs) =
     (case p c of
        Inl e \<Rightarrow> Inl e
      | Inr b \<Rightarrow> if b then Inr True else anyMatch p cs)"

text \<open>The lambda of the \<^verbatim>\<open>KeyValueObjectMatcherContext\<close> branch.\<close>

definition keyValueTest ::
  "('d, 'p) externals \<Rightarrow> string \<Rightarrow> NodeMatcher option \<Rightarrow> Value \<Rightarrow> error + bool" where
  "keyValueTest E key matcher c =
     (case c of
        ObjectValue obj \<Rightarrow>
          (case map_of obj key of
             None \<Rightarrow> Inr False
           | Some v \<Rightarrow>
               (case matcher of
                  None \<Rightarrow> Inr True
                | Some m \<Rightarrow> matchNode E (Some v) m))
      | _ \<Rightarrow> Inr False)"

fun matchExtendedConstraint ::
  "('d, 'p) externals \<Rightarrow> Value list \<Rightarrow> ExtendedObjectMatcher \<Rightarrow> error + bool" where
  "matchExtendedConstraint E constraints (DefaultExtendedMatcher defaultObjectMatcher) =
     anyMatch (\<lambda>c. matchDefaultObject E (Some c) defaultObjectMatcher) constraints"
| "matchExtendedConstraint E constraints (KeyValueObjectMatcher keyToken matcher) =
     (let key = unquoteString E keyToken in
      anyMatch (keyValueTest E key matcher) constraints)"
| "matchExtendedConstraint E constraints OtherExtendedObjectMatcher = Inr False"

subsection \<open>buildSingleMatcherPredicate and buildCombinedMatcherPredicate\<close>

text \<open>
  A \<^verbatim>\<open>Predicate<AuthorizationDecision>\<close> is a function of the decision reference,
  which may be \<^verbatim>\<open>null\<close>. \<^verbatim>\<open>Predicate.and\<close> evaluates its receiver first and
  its argument only when the receiver holds.
\<close>

type_synonym DecisionPredicate = "AuthorizationDecision option \<Rightarrow> error + bool"

definition nonNull :: DecisionPredicate where
  "nonNull d = Inr (d \<noteq> None)"

definition predicateAnd :: "DecisionPredicate \<Rightarrow> DecisionPredicate \<Rightarrow> DecisionPredicate" where
  "predicateAnd p other =
     (\<lambda>d. case p d of Inl e \<Rightarrow> Inl e | Inr b \<Rightarrow> if b then other d else Inr False)"

text \<open>
  The \<^verbatim>\<open>switch\<close> builds the predicate, or throws in its \<^verbatim>\<open>default\<close> branch while
  building; the predicates it yields are evaluated later, on a decision.
\<close>

fun buildSingleMatcherPredicate ::
  "('d, 'p) externals \<Rightarrow> AuthorizationDecisionMatcher \<Rightarrow> error + DecisionPredicate" where
  "buildSingleMatcherPredicate E AnyDecisionMatcher = Inr nonNull"
| "buildSingleMatcherPredicate E (IsDecisionMatcher decisionToken) =
     (let expectedDecision = parseDecisionType E decisionToken in
      Inr (\<lambda>d. case d of
                 None \<Rightarrow> Inr False
               | Some dec \<Rightarrow> Inr (decision dec = expectedDecision)))"
| "buildSingleMatcherPredicate E (HasObligationOrAdviceMatcher matcherType extendedMatch) =
     (let isObligation = equalsIgnoreCase E ''obligation'' matcherType in
      Inr (\<lambda>d. case d of
                 None \<Rightarrow> Inr False
               | Some dec \<Rightarrow>
                   (let constraints = (if isObligation then obligations dec else advice dec) in
                    case constraints of
                      None \<Rightarrow> Inr False
                    | Some cs \<Rightarrow>
                        if cs = [] then Inr False
                        else (case extendedMatch of
                                None \<Rightarrow> Inr True
                              | Some m \<Rightarrow> matchExtendedConstraint E cs m))))"
| "buildSingleMatcherPredicate E (HasResourceMatcher defaultMatcher) =
     Inr (\<lambda>d. case d of
                None \<Rightarrow> Inr False
              | Some dec \<Rightarrow>
                  (let res = resource dec in
                   case defaultMatcher of
                     None \<Rightarrow> Inr (res \<noteq> None \<and> res \<noteq> Some UndefinedValue)
                   | Some m \<Rightarrow>
                       if res = None \<or> res = Some UndefinedValue then Inr False
                       else matchDefaultObject E res m))"
| "buildSingleMatcherPredicate E (OtherDecisionMatcher simpleName) =
     Inl (IllegalArgumentException (''Unknown matcher type: '' @ simpleName))"

text \<open>The loop of \<^verbatim>\<open>buildCombinedMatcherPredicate\<close>, with \<open>combined\<close> its variable.\<close>

fun combineLoop ::
  "('d, 'p) externals \<Rightarrow> DecisionPredicate \<Rightarrow> AuthorizationDecisionMatcher list
     \<Rightarrow> error + DecisionPredicate" where
  "combineLoop E combined [] = Inr combined"
| "combineLoop E combined (matcher # matchers) =
     (case buildSingleMatcherPredicate E matcher of
        Inl e \<Rightarrow> Inl e
      | Inr p \<Rightarrow> combineLoop E (predicateAnd combined p) matchers)"

definition buildCombinedMatcherPredicate ::
  "('d, 'p) externals \<Rightarrow> AuthorizationDecisionMatcher list \<Rightarrow> error + DecisionPredicate" where
  "buildCombinedMatcherPredicate E matchers = combineLoop E nonNull matchers"

subsection \<open>Collaborators for the worked examples\<close>

text \<open>
  Modelled from the spec: \<^verbatim>\<open>unquoteString\<close> is not among the scripts; the
  specification says that it strips the surrounding quote syntax and resolves
  escapes. \<open>stripQuotes\<close> removes the first and the last character of the token; it
  resolves no escapes, and the examples contain none.
\<close>

definition stripQuotes :: "string \<Rightarrow> string" where
  "stripQuotes token = butlast (tl token)"

text \<open>
  Modelled from the spec: \<^verbatim>\<open>parseDecisionType\<close> is not among the scripts; the
  specification names the four verdicts. The token text is read without regard to
  the case of ASCII letters written here in both cases.
\<close>

definition decisionOfToken :: "string \<Rightarrow> Decision" where
  "decisionOfToken token =
     (if token = ''permit'' \<or> token = ''PERMIT'' then PERMIT
      else if token = ''deny'' \<or> token = ''DENY'' then DENY
      else if token = ''indeterminate'' \<or> token = ''INDETERMINATE'' then INDETERMINATE
      else NOT_APPLICABLE)"

text \<open>
  The examples run with these two collaborators. They call no other collaborator, so
  the others are left unspecified: what is proved of an example holds whatever the
  converter, the equality of values, the doubles, the pattern engine and the case
  mappings are. The types of doubles and of compiled patterns, which no example
  reaches, are instantiated with \<open>unit\<close>.
\<close>

definition exampleExternals :: "(unit, unit) externals" where
  "exampleExternals =
     \<lparr> unquoteString = stripQuotes,
       convertValue = undefined,
       valueEquals = undefined,
       parseDecisionType = decisionOfToken,
       parseDouble = undefined,
       doubleValue = undefined,
       doubleEq = undefined,
       patternCompile = undefined,
       patternMatches = undefined,
       toLowerCase = undefined,
       equalsIgnoreCase = undefined \<rparr>"

subsection \<open>Notions the properties are stated with\<close>

text \<open>
  \<open>occursAt text str i\<close>: the string \<open>str\<close> stands in \<open>text\<close> at index \<open>i\<close>.
  \<open>placedInOrder text start strs ps\<close>: the positions \<open>ps\<close> place the strings
  \<open>strs\<close> in \<open>text\<close> in order, the first at or after \<open>start\<close> and each at or after
  the end of the one before it.
\<close>

definition occursAt :: "string \<Rightarrow> string \<Rightarrow> nat \<Rightarrow> bool" where
  "occursAt text str i = (i \<le> length text \<and> prefix str (drop i text))"

fun placedInOrder :: "string \<Rightarrow> nat \<Rightarrow> string list \<Rightarrow> nat list \<Rightarrow> bool" where
  "placedInOrder text start [] ps = (ps = [])"
| "placedInOrder text start (s # ss) [] = False"
| "placedInOrder text start (s # ss) (p # ps) =
     (start \<le> p \<and> occursAt text s p \<and> placedInOrder text (p + length s) ss ps)"

text \<open>
  A matcher is malformed when one of its parts is a literal, a length or a pattern
  that its parser rejects: the number token of a NumberMatcher for
  \<^verbatim>\<open>Double.parseDouble\<close>, the length token of a has-length matcher for
  \<^verbatim>\<open>Integer.parseInt\<close>, the pattern of a matches-regex matcher for
  \<^verbatim>\<open>Pattern.compile\<close>.
\<close>

fun malformedStringMatcher :: "('d, 'p) externals \<Rightarrow> StringOrStringMatcher \<Rightarrow> bool" where
  "malformedStringMatcher E (ComplexStringMatcher (StringMatchesRegex regexToken)) =
     (patternCompile E (unquoteString E regexToken) = None)"
| "malformedStringMatcher E (ComplexStringMatcher (StringWithLength lengthToken)) =
     (parseInt lengthToken = None)"
| "malformedStringMatcher E m = False"

fun malformedNode :: "('d, 'p) externals \<Rightarrow> NodeMatcher \<Rightarrow> bool" where
  "malformedNode E (TextMatcher (Some m)) = malformedStringMatcher E m"
| "malformedNode E (NumberMatcher (Some numberToken)) = (parseDouble E numberToken = None)"
| "malformedNode E (ArrayMatcher (Some matchers)) = (\<exists>m \<in> set matchers. malformedNode E m)"
| "malformedNode E (ObjectMatcher (Some members)) =
     (\<exists>member \<in> set members. malformedNode E (snd member))"
| "malformedNode E m = False"

section \<open>Properties\<close>

subsection \<open>Shared facts\<close>

lemma unquoteString_example [simp]: "unquoteString exampleExternals = stripQuotes"
  by (simp add: exampleExternals_def)

lemma parseDecisionType_example [simp]: "parseDecisionType exampleExternals = decisionOfToken"
  by (simp add: exampleExternals_def)

text \<open>
  A loop step of the array and object loops returns true exactly when the element
  matched and the rest of the loop returns true.
\<close>

lemma sum_bool_case_True:
  "((case r of Inl e \<Rightarrow> Inl e | Inr b \<Rightarrow> if \<not> b then Inr False else k) = (Inr True :: error + bool))
    \<longleftrightarrow> (r = Inr True \<and> k = Inr True)"
  by (cases r) auto

subsection \<open>Arrays: exact arity\<close>

lemma matchArrayLoop_True_iff:
  "length array = length matchers \<Longrightarrow>
     (matchArrayLoop E array matchers = Inr True) =
     (\<forall>i<length matchers. matchNode E (Some (array ! i)) (matchers ! i) = Inr True)"
proof (induction array matchers rule: list_induct2)
  case Nil
  then show ?case by simp
next
  case (Cons v vs m ms)
  show ?case
    by (simp only: matchArrayLoop.simps sum_bool_case_True Cons.IH All_less_Suc2
        length_Cons nth_Cons_0 nth_Cons_Suc)
qed

text \<open>
  Claim C3. An array value matches an array matcher with a body exactly when the
  array has as many elements as the body has element matchers and the element at
  every position matches the matcher at that position. When the counts differ the
  result is false (not an exception); in particular an array of two elements
  never matches a body of three matchers, whatever the values and matchers are.
\<close>

theorem C3_array_exact_arity:
  "(matchNode E (Some (ArrayValue array)) (ArrayMatcher (Some matchers)) = Inr True
      \<longleftrightarrow> length array = length matchers
          \<and> (\<forall>i<length matchers. matchNode E (Some (array ! i)) (matchers ! i) = Inr True))
   \<and> (length array \<noteq> length matchers
      \<longrightarrow> matchNode E (Some (ArrayValue array)) (ArrayMatcher (Some matchers)) = Inr False)
   \<and> matchNode E (Some (ArrayValue [v1, v2])) (ArrayMatcher (Some [m1, m2, m3])) = Inr False"
  using matchArrayLoop_True_iff [of array matchers E] by auto

theorem C3_array_exact_arity_witness:
  "matchNode exampleExternals
      (Some (ArrayValue [NullValue, TextValue ''a'']))
      (ArrayMatcher (Some [NullMatcher, TextMatcher None])) = Inr True
   \<and> length [NullValue, TextValue ''a''] = length [NullMatcher, TextMatcher None]
   \<and> matchNode exampleExternals (Some ([NullValue, TextValue ''a''] ! 1))
        ([NullMatcher, TextMatcher None] ! 1) = Inr True
   \<and> matchNode exampleExternals (Some (ArrayValue [NullValue]))
        (ArrayMatcher (Some [NullMatcher, TextMatcher None])) = Inr False"
  using C3_array_exact_arity [of exampleExternals "[NullValue, TextValue ''a'']"
      "[NullMatcher, TextMatcher None]"]
    C3_array_exact_arity [of exampleExternals "[NullValue]" "[NullMatcher, TextMatcher None]"]
  by simp

subsection \<open>Objects: declared members only\<close>

lemma matchObjectBody_True_iff:
  "(matchObjectBody E obj members = Inr True) =
     (\<forall>(keyToken, m) \<in> set members.
        \<exists>v. map_of obj (unquoteString E keyToken) = Some v \<and> matchNode E (Some v) m = Inr True)"
proof (induction members)
  case Nil
  then show ?case by simp
next
  case (Cons km members)
  obtain k m where km: "km = (k, m)" by (cases km)
  show ?case
    by (cases "map_of obj (unquoteString E k)")
       (simp_all add: km Let_def sum_bool_case_True Cons.IH)
qed

text \<open>The loop reads the object only at the declared keys.\<close>

lemma matchObjectBody_agree:
  "\<forall>(keyToken, m) \<in> set members.
      map_of obj' (unquoteString E keyToken) = map_of obj (unquoteString E keyToken) \<Longrightarrow>
   matchObjectBody E obj' members = matchObjectBody E obj members"
  by (induction members) (auto simp: Let_def split: option.splits sum.splits)

text \<open>
  Claim C4. An object value matches an object matcher with a body exactly when every
  declared member has its (unquoted) key bound in the object to a value that matches
  the member's matcher; other keys of the object are not read. Putting a binding for
  a key that the matcher does not declare into the object (\<^verbatim>\<open>put\<close>: a new key is
  added, a bound key is rebound) leaves the result as it was, so an object that
  matched still matches; an object matcher without a body matches every object.
\<close>

theorem C4_object_subset:
  "(matchNode E (Some (ObjectValue obj)) (ObjectMatcher (Some members)) = Inr True
      \<longleftrightarrow> (\<forall>(keyToken, m) \<in> set members.
             \<exists>v. map_of obj (unquoteString E keyToken) = Some v
                \<and> matchNode E (Some v) m = Inr True))
   \<and> (key \<notin> unquoteString E ` fst ` set members
      \<longrightarrow> matchNode E (Some (ObjectValue (AList.update key x obj))) (ObjectMatcher (Some members))
          = matchNode E (Some (ObjectValue obj)) (ObjectMatcher (Some members)))
   \<and> (matchNode E (Some (ObjectValue obj)) (ObjectMatcher (Some members)) = Inr True
        \<and> key \<notin> unquoteString E ` fst ` set members
      \<longrightarrow> matchNode E (Some (ObjectValue (AList.update key x obj))) (ObjectMatcher (Some members))
          = Inr True)
   \<and> matchNode E (Some (ObjectValue (AList.update key x obj))) (ObjectMatcher None) = Inr True"
proof -
  have agree: "matchObjectBody E (AList.update key x obj) members = matchObjectBody E obj members"
    if "key \<notin> unquoteString E ` fst ` set members"
  proof (rule matchObjectBody_agree)
    show "\<forall>(keyToken, m) \<in> set members.
      map_of (AList.update key x obj) (unquoteString E keyToken)
        = map_of obj (unquoteString E keyToken)"
      using that by (force simp: update_conv')
  qed
  show ?thesis
    using agree by (simp add: matchObjectBody_True_iff)
qed

theorem C4_object_subset_witness:
  "matchNode exampleExternals
     (Some (ObjectValue [(''a'', TextValue ''1'')]))
     (ObjectMatcher (Some [(''\"a\"'', TextMatcher (Some (PlainStringMatcher ''\"1\"'')))]))
     = Inr True
   \<and> ''b'' \<notin> unquoteString exampleExternals
        ` fst ` set [(''\"a\"'', TextMatcher (Some (PlainStringMatcher ''\"1\"'')))]
   \<and> AList.update ''b'' (TextValue ''2'') [(''a'', TextValue ''1'')]
        = [(''a'', TextValue ''1''), (''b'', TextValue ''2'')]
   \<and> matchNode exampleExternals
     (Some (ObjectValue [(''a'', TextValue ''1''), (''b'', TextValue ''2'')]))
     (ObjectMatcher (Some [(''\"a\"'', TextMatcher (Some (PlainStringMatcher ''\"1\"'')))]))
     = Inr True
   \<and> matchNode exampleExternals
     (Some (ObjectValue [(''b'', TextValue ''2'')]))
     (ObjectMatcher (Some [(''\"a\"'', TextMatcher (Some (PlainStringMatcher ''\"1\"'')))]))
     = Inr False"
  using C4_object_subset [of exampleExternals "[(''a'', TextValue ''1'')]"
      "[(''\"a\"'', TextMatcher (Some (PlainStringMatcher ''\"1\"'')))]" "''b''" "TextValue ''2''"]
  by (simp add: stripQuotes_def)

subsection \<open>The combined predicate is the conjunction of the clauses\<close>

lemma predicateAnd_True_iff:
  "(predicateAnd p other d = Inr True) = (p d = Inr True \<and> other d = Inr True)"
  by (cases "p d") (auto simp: predicateAnd_def)

lemma predicateAnd_False:
  "p d = Inr False \<Longrightarrow> predicateAnd p other d = Inr False"
  by (simp add: predicateAnd_def)

lemma combineLoop_True_iff:
  "combineLoop E combined matchers = Inr p \<Longrightarrow>
   (p d = Inr True) =
     (combined d = Inr True
      \<and> (\<forall>m \<in> set matchers. \<exists>q. buildSingleMatcherPredicate E m = Inr q \<and> q d = Inr True))"
proof (induction matchers arbitrary: combined)
  case Nil
  then show ?case by simp
next
  case (Cons m matchers)
  then obtain q where q: "buildSingleMatcherPredicate E m = Inr q"
    and rest: "combineLoop E (predicateAnd combined q) matchers = Inr p"
    by (auto split: sum.splits)
  show ?case
    using Cons.IH [OF rest] by (auto simp: q predicateAnd_True_iff)
qed

lemma combineLoop_False:
  "combineLoop E combined matchers = Inr p \<Longrightarrow> combined d = Inr False \<Longrightarrow> p d = Inr False"
proof (induction matchers arbitrary: combined)
  case Nil
  then show ?case by simp
next
  case (Cons m matchers)
  then obtain q where q: "buildSingleMatcherPredicate E m = Inr q"
    and rest: "combineLoop E (predicateAnd combined q) matchers = Inr p"
    by (auto split: sum.splits)
  show ?case
    using Cons.IH [OF rest] Cons.prems(2) by (simp add: predicateAnd_False)
qed

lemma buildSingle_defined:
  "(\<exists>q. buildSingleMatcherPredicate E m = Inr q) = (\<forall>n. m \<noteq> OtherDecisionMatcher n)"
  by (cases m) (auto simp: Let_def)

lemma combineLoop_defined:
  "(\<exists>p. combineLoop E combined matchers = Inr p)
     = (\<forall>m \<in> set matchers. \<forall>n. m \<noteq> OtherDecisionMatcher n)"
proof (induction matchers arbitrary: combined)
  case Nil
  then show ?case by simp
next
  case (Cons m matchers)
  show ?case
  proof (cases "buildSingleMatcherPredicate E m")
    case (Inl e)
    then have "\<exists>n. m = OtherDecisionMatcher n"
      using buildSingle_defined [of E m] by auto
    then show ?thesis using Inl by auto
  next
    case (Inr q)
    then have "\<forall>n. m \<noteq> OtherDecisionMatcher n"
      using buildSingle_defined [of E m] by auto
    then show ?thesis using Inr Cons.IH [of "predicateAnd combined q"] by simp
  qed
qed

text \<open>
  Claim C1. When the builder returns a predicate for a list of clauses, that
  predicate is false on the \<^verbatim>\<open>null\<close> decision, and on a decision it is true exactly
  when the predicate built for every clause of the list is true on that same
  decision. The builder returns a predicate exactly when no clause is of an unknown
  class. For the clauses "is \<open>tok\<close>" and "has resource" the combined predicate is
  false on a decision with that verdict and the resource Undefined, although the
  predicate of "is \<open>tok\<close>" alone is true on it.
\<close>

theorem C1_combined_conjunction:
  "(buildCombinedMatcherPredicate E matchers = Inr p \<longrightarrow>
      p None = Inr False
      \<and> (\<forall>dec. (p (Some dec) = Inr True)
            = (\<forall>m \<in> set matchers.
                 \<exists>q. buildSingleMatcherPredicate E m = Inr q \<and> q (Some dec) = Inr True)))
   \<and> ((\<exists>p'. buildCombinedMatcherPredicate E matchers = Inr p')
        = (\<forall>m \<in> set matchers. \<forall>n. m \<noteq> OtherDecisionMatcher n))
   \<and> (\<exists>both isOnly.
        buildCombinedMatcherPredicate E [IsDecisionMatcher tok, HasResourceMatcher None] = Inr both
        \<and> buildCombinedMatcherPredicate E [IsDecisionMatcher tok] = Inr isOnly
        \<and> both (Some \<lparr> decision = parseDecisionType E tok, obligations = obs, advice = adv,
                        resource = Some UndefinedValue \<rparr>) = Inr False
        \<and> isOnly (Some \<lparr> decision = parseDecisionType E tok, obligations = obs, advice = adv,
                        resource = Some UndefinedValue \<rparr>) = Inr True)"
proof (intro conjI impI allI)
  assume b: "buildCombinedMatcherPredicate E matchers = Inr p"
  show "p None = Inr False"
    using combineLoop_False [of E nonNull matchers p None] b
    by (simp add: buildCombinedMatcherPredicate_def nonNull_def)
  fix dec
  show "(p (Some dec) = Inr True)
            = (\<forall>m \<in> set matchers.
                 \<exists>q. buildSingleMatcherPredicate E m = Inr q \<and> q (Some dec) = Inr True)"
    using combineLoop_True_iff [of E nonNull matchers p "Some dec"] b
    by (simp add: buildCombinedMatcherPredicate_def nonNull_def)
next
  show "(\<exists>p'. buildCombinedMatcherPredicate E matchers = Inr p')
        = (\<forall>m \<in> set matchers. \<forall>n. m \<noteq> OtherDecisionMatcher n)"
    unfolding buildCombinedMatcherPredicate_def by (rule combineLoop_defined)
next
  show "\<exists>both isOnly.
        buildCombinedMatcherPredicate E [IsDecisionMatcher tok, HasResourceMatcher None] = Inr both
        \<and> buildCombinedMatcherPredicate E [IsDecisionMatcher tok] = Inr isOnly
        \<and> both (Some \<lparr> decision = parseDecisionType E tok, obligations = obs, advice = adv,
                        resource = Some UndefinedValue \<rparr>) = Inr False
        \<and> isOnly (Some \<lparr> decision = parseDecisionType E tok, obligations = obs, advice = adv,
                        resource = Some UndefinedValue \<rparr>) = Inr True"
    by (simp add: buildCombinedMatcherPredicate_def Let_def predicateAnd_def nonNull_def)
qed




theorem C1_combined_conjunction_witness:
  "\<exists>p. buildCombinedMatcherPredicate exampleExternals
          [IsDecisionMatcher ''permit'', HasResourceMatcher None] = Inr p
     \<and> p None = Inr False
     \<and> p (Some \<lparr> decision = PERMIT, obligations = Some [], advice = Some [],
                  resource = Some UndefinedValue \<rparr>) = Inr False
     \<and> p (Some \<lparr> decision = PERMIT, obligations = Some [], advice = Some [],
                  resource = Some (TextValue ''r'') \<rparr>) = Inr True
     \<and> p (Some \<lparr> decision = DENY, obligations = Some [], advice = Some [],
                  resource = Some (TextValue ''r'') \<rparr>) = Inr False"
proof -
  let ?ms = "[IsDecisionMatcher ''permit'', HasResourceMatcher None]"
  let ?run = "\<lambda>d. case buildCombinedMatcherPredicate exampleExternals ?ms of
                    Inl e \<Rightarrow> Inl e | Inr f \<Rightarrow> f d"
  obtain p where b: "buildCombinedMatcherPredicate exampleExternals ?ms = Inr p"
    by (simp add: buildCombinedMatcherPredicate_def Let_def)
  have general: "p None = Inr False
      \<and> (\<forall>dec. (p (Some dec) = Inr True)
            = (\<forall>m \<in> set ?ms.
                 \<exists>q. buildSingleMatcherPredicate exampleExternals m = Inr q
                    \<and> q (Some dec) = Inr True))"
    by (rule mp [OF conjunct1 [OF C1_combined_conjunction [of exampleExternals ?ms p]] b])
  have "?run (Some \<lparr> decision = PERMIT, obligations = Some [], advice = Some [],
                  resource = Some UndefinedValue \<rparr>) = Inr False"
    by (simp add: buildCombinedMatcherPredicate_def Let_def predicateAnd_def nonNull_def
        decisionOfToken_def)
  then have v1: "p (Some \<lparr> decision = PERMIT, obligations = Some [], advice = Some [],
                  resource = Some UndefinedValue \<rparr>) = Inr False"
    by (simp add: b)
  have "?run (Some \<lparr> decision = DENY, obligations = Some [], advice = Some [],
                  resource = Some (TextValue ''r'') \<rparr>) = Inr False"
    by (simp add: buildCombinedMatcherPredicate_def Let_def predicateAnd_def nonNull_def
        decisionOfToken_def)
  then have v2: "p (Some \<lparr> decision = DENY, obligations = Some [], advice = Some [],
                  resource = Some (TextValue ''r'') \<rparr>) = Inr False"
    by (simp add: b)
  have v3: "p (Some \<lparr> decision = PERMIT, obligations = Some [], advice = Some [],
                  resource = Some (TextValue ''r'') \<rparr>) = Inr True"
    by (simp add: general Let_def decisionOfToken_def)
  show ?thesis
    using b general v1 v2 v3 by (intro exI [of _ p] conjI) simp_all
qed

subsection \<open>Matchers of an unknown class\<close>

lemma buildSingle_Inl:
  "buildSingleMatcherPredicate E m = Inl e \<Longrightarrow>
   \<exists>n. m = OtherDecisionMatcher n
      \<and> e = IllegalArgumentException (''Unknown matcher type: '' @ n)"
  by (cases m) (auto simp: Let_def)

lemma combineLoop_Other:
  "OtherDecisionMatcher n \<in> set matchers \<Longrightarrow>
   \<exists>n'. OtherDecisionMatcher n' \<in> set matchers
      \<and> combineLoop E combined matchers
          = Inl (IllegalArgumentException (''Unknown matcher type: '' @ n'))"
proof (induction matchers arbitrary: combined)
  case Nil
  then show ?case by simp
next
  case (Cons m matchers)
  show ?case
  proof (cases "buildSingleMatcherPredicate E m")
    case (Inl e)
    then show ?thesis using buildSingle_Inl [OF Inl] by auto
  next
    case (Inr q)
    then have "m \<noteq> OtherDecisionMatcher n" by auto
    then have "OtherDecisionMatcher n \<in> set matchers" using Cons.prems by simp
    from Cons.IH [OF this, of "predicateAnd combined q"] show ?thesis
      using Inr by auto
  qed
qed

text \<open>
  Claim C2 says that every dispatcher throws on a matcher of an unknown class. The
  \<^verbatim>\<open>instanceof\<close> chains of \<^verbatim>\<open>matchNode\<close>, \<^verbatim>\<open>matchString\<close>, \<^verbatim>\<open>matchComplexString\<close>,
  \<^verbatim>\<open>matchDefaultObject\<close> and \<^verbatim>\<open>matchExtendedConstraint\<close> end in \<^verbatim>\<open>return false\<close>:
  on such a matcher each of them returns false.
\<close>

theorem C2_unknown_variant_counterexample:
  "matchNode exampleExternals (Some NullValue) OtherNodeMatcher = Inr False
   \<and> matchString exampleExternals (Some ''a'') OtherStringOrStringMatcher = Inr False
   \<and> matchComplexString exampleExternals (Some ''a'') OtherStringMatcher = Inr False
   \<and> matchDefaultObject exampleExternals (Some NullValue) OtherDefaultObjectMatcher = Inr False
   \<and> matchExtendedConstraint exampleExternals [NullValue] OtherExtendedObjectMatcher
        = Inr False"
  by simp

text \<open>
  Claim C2, amended. Of the dispatchers only the predicate builder throws: for a
  clause of an unknown class \<^verbatim>\<open>buildSingleMatcherPredicate\<close> throws
  \<^verbatim>\<open>IllegalArgumentException\<close> with the class name in its message, and so does
  \<^verbatim>\<open>buildCombinedMatcherPredicate\<close> for a list that holds such a clause, while the
  predicate is built and before any decision is tested. The node, string,
  default-object and constraint matchers return false on a matcher of an unknown
  class.
\<close>

theorem C2_unknown_variant:
  "matchNode E node OtherNodeMatcher = Inr False
   \<and> matchString E text OtherStringOrStringMatcher = Inr False
   \<and> matchComplexString E text OtherStringMatcher = Inr False
   \<and> matchDefaultObject E node OtherDefaultObjectMatcher = Inr False
   \<and> matchExtendedConstraint E constraints OtherExtendedObjectMatcher = Inr False
   \<and> buildSingleMatcherPredicate E (OtherDecisionMatcher n)
        = Inl (IllegalArgumentException (''Unknown matcher type: '' @ n))
   \<and> (OtherDecisionMatcher n \<in> set matchers \<longrightarrow>
        (\<exists>n'. OtherDecisionMatcher n' \<in> set matchers
           \<and> buildCombinedMatcherPredicate E matchers
               = Inl (IllegalArgumentException (''Unknown matcher type: '' @ n'))))"
  using combineLoop_Other [of n matchers E nonNull]
  by (simp add: buildCombinedMatcherPredicate_def)

theorem C2_unknown_variant_witness:
  "OtherDecisionMatcher ''FooContext'' \<in> set [AnyDecisionMatcher, OtherDecisionMatcher ''FooContext'']
   \<and> buildCombinedMatcherPredicate exampleExternals
        [AnyDecisionMatcher, OtherDecisionMatcher ''FooContext'']
        = Inl (IllegalArgumentException ''Unknown matcher type: FooContext'')"
  using C2_unknown_variant [of exampleExternals None None "[]" "''FooContext''"
      "[AnyDecisionMatcher, OtherDecisionMatcher ''FooContext'']"]
  by (simp add: buildCombinedMatcherPredicate_def)

subsection \<open>Malformed literals\<close>

text \<open>
  Claim C8 says that a NumberMatcher with a malformed literal always fails with an
  exception. \<^verbatim>\<open>matchNode\<close> tests the type of the value before it parses the literal:
  on a text value the matcher with the literal \<open>abc\<close>, which the parser of doubles
  rejects, returns false.
\<close>

theorem C8_malformed_literal_counterexample:
  "parseDouble (exampleExternals \<lparr> parseDouble := Map.empty \<rparr>) ''abc'' = None
   \<and> matchNode (exampleExternals \<lparr> parseDouble := Map.empty \<rparr>)
        (Some (TextValue ''x'')) (NumberMatcher (Some ''abc'')) = Inr False"
  by simp

text \<open>
  No method catches an exception: where a loop, the stream or a conjunction of
  predicates reaches a part that throws, it throws the same exception.
\<close>

lemma matchArrayLoop_throws:
  "length array = length matchers \<Longrightarrow> i < length matchers \<Longrightarrow>
   \<forall>j<i. matchNode E (Some (array ! j)) (matchers ! j) = Inr True \<Longrightarrow>
   matchNode E (Some (array ! i)) (matchers ! i) = Inl e \<Longrightarrow>
   matchArrayLoop E array matchers = Inl e"
proof (induction array matchers arbitrary: i rule: list_induct2)
  case Nil
  then show ?case by simp
next
  case (Cons v vs m ms)
  show ?case
  proof (cases i)
    case 0
    then show ?thesis using Cons.prems by simp
  next
    case (Suc k)
    have first: "matchNode E (Some v) m = Inr True"
      using Cons.prems(2) [rule_format, of 0] Suc by simp
    have rest: "\<forall>j<k. matchNode E (Some (vs ! j)) (ms ! j) = Inr True"
      using Cons.prems(2) Suc by auto
    have "matchArrayLoop E vs ms = Inl e"
      using Cons.IH [of k] Cons.prems(1,3) Suc rest by simp
    then show ?thesis using first by simp
  qed
qed

lemma matchObjectBody_skip:
  "\<forall>(k, m') \<in> set membersBefore.
      \<exists>v'. map_of obj (unquoteString E k) = Some v' \<and> matchNode E (Some v') m' = Inr True \<Longrightarrow>
   matchObjectBody E obj (membersBefore @ members) = matchObjectBody E obj members"
  by (induction membersBefore) (auto simp: Let_def)

lemma matchObjectBody_throws:
  "\<forall>(k, m') \<in> set membersBefore.
      \<exists>v'. map_of obj (unquoteString E k) = Some v' \<and> matchNode E (Some v') m' = Inr True \<Longrightarrow>
   map_of obj (unquoteString E keyToken) = Some v \<Longrightarrow>
   matchNode E (Some v) m = Inl e \<Longrightarrow>
   matchObjectBody E obj (membersBefore @ (keyToken, m) # membersAfter) = Inl e"
  by (simp add: matchObjectBody_skip Let_def)

lemma anyMatch_skip:
  "\<forall>c' \<in> set earlier. p c' = Inr False \<Longrightarrow> anyMatch p (earlier @ cs) = anyMatch p cs"
  by (induction earlier) auto

lemma anyMatch_throws:
  "\<forall>c' \<in> set earlier. p c' = Inr False \<Longrightarrow> p c = Inl e \<Longrightarrow>
   anyMatch p (earlier @ c # later) = Inl e"
  by (simp add: anyMatch_skip)

lemma predicateAnd_throws_left:
  "p d = Inl e \<Longrightarrow> predicateAnd p other d = Inl e"
  by (simp add: predicateAnd_def)

lemma predicateAnd_throws_right:
  "p d = Inr True \<Longrightarrow> other d = Inl e \<Longrightarrow> predicateAnd p other d = Inl e"
  by (simp add: predicateAnd_def)

lemma combineLoop_keeps_throw:
  "combineLoop E combined matchers = Inr p \<Longrightarrow> combined d = Inl e \<Longrightarrow> p d = Inl e"
proof (induction matchers arbitrary: combined)
  case Nil
  then show ?case by simp
next
  case (Cons m matchers)
  then obtain q where q: "buildSingleMatcherPredicate E m = Inr q"
    and rest: "combineLoop E (predicateAnd combined q) matchers = Inr p"
    by (auto split: sum.splits)
  show ?case
    using Cons.IH [OF rest] Cons.prems(2) by (simp add: predicateAnd_throws_left)
qed

lemma combineLoop_throws:
  "combineLoop E combined (clausesBefore @ clause # clausesAfter) = Inr p \<Longrightarrow>
   combined d = Inr True \<Longrightarrow>
   \<forall>m' \<in> set clausesBefore. \<exists>q'. buildSingleMatcherPredicate E m' = Inr q' \<and> q' d = Inr True \<Longrightarrow>
   buildSingleMatcherPredicate E clause = Inr q \<Longrightarrow> q d = Inl e \<Longrightarrow>
   p d = Inl e"
proof (induction clausesBefore arbitrary: combined)
  case Nil
  then have "combineLoop E (predicateAnd combined q) clausesAfter = Inr p" by simp
  moreover have "predicateAnd combined q d = Inl e"
    using Nil.prems by (simp add: predicateAnd_throws_right)
  ultimately show ?case by (rule combineLoop_keeps_throw)
next
  case (Cons m' clausesBefore)
  then obtain q' where q': "buildSingleMatcherPredicate E m' = Inr q'" "q' d = Inr True"
    by auto
  have rest: "combineLoop E (predicateAnd combined q') (clausesBefore @ clause # clausesAfter)
      = Inr p"
    using Cons.prems(1) q' by simp
  have "predicateAnd combined q' d = Inr True"
    using Cons.prems(2) q' by (simp add: predicateAnd_True_iff)
  from Cons.IH [OF rest this] Cons.prems show ?case by simp
qed

text \<open>
  Claim C8, amended. On a Number value a NumberMatcher whose literal
  \<^verbatim>\<open>Double.parseDouble\<close> rejects throws \<^verbatim>\<open>NumberFormatException\<close>; on any other value
  (or none) it returns false, the literal unparsed. A has-length string matcher
  whose operand \<^verbatim>\<open>Integer.parseInt\<close> rejects throws \<^verbatim>\<open>NumberFormatException\<close> for
  every text, present or absent, in \<^verbatim>\<open>matchComplexString\<close> and \<^verbatim>\<open>matchString\<close>, and in
  \<^verbatim>\<open>matchNode\<close> on every Text value; on a value that is not Text \<^verbatim>\<open>matchNode\<close>
  returns false. The exception is never caught and never becomes a false result:
  whatever a part throws, the method that reaches it throws. The array loop throws
  what the first element that does not match throws, the object loop what the
  first member that does not match throws, \<^verbatim>\<open>matchDefaultObject\<close> and the key-value
  test what \<^verbatim>\<open>matchNode\<close> throws, \<^verbatim>\<open>anyMatch\<close> and \<^verbatim>\<open>matchExtendedConstraint\<close> what the
  first element that is not false throws, the predicates of the obligation, advice
  and resource clauses what the matcher below them throws, \<^verbatim>\<open>Predicate.and\<close> what
  either side throws, and the combined predicate what the first clause that is not
  true throws.
\<close>

theorem C8_malformed_literal:
  "(parseDouble E numberToken = None \<longrightarrow>
      matchNode E (Some (NumberValue n)) (NumberMatcher (Some numberToken))
        = Inl NumberFormatException)
   \<and> ((\<forall>n. node \<noteq> Some (NumberValue n)) \<longrightarrow>
        matchNode E node (NumberMatcher (Some numberToken)) = Inr False)
   \<and> (parseInt lengthToken = None \<longrightarrow>
        matchComplexString E str (StringWithLength lengthToken) = Inl NumberFormatException
        \<and> matchString E str (ComplexStringMatcher (StringWithLength lengthToken))
            = Inl NumberFormatException
        \<and> matchNode E (Some (TextValue t))
            (TextMatcher (Some (ComplexStringMatcher (StringWithLength lengthToken))))
            = Inl NumberFormatException)
   \<and> ((\<forall>t. node \<noteq> Some (TextValue t)) \<longrightarrow>
        matchNode E node
            (TextMatcher (Some (ComplexStringMatcher (StringWithLength lengthToken))))
            = Inr False)
   \<and> (length array = length matchers \<and> i < length matchers
        \<and> (\<forall>j<i. matchNode E (Some (array ! j)) (matchers ! j) = Inr True)
        \<and> matchNode E (Some (array ! i)) (matchers ! i) = Inl e \<longrightarrow>
        matchArrayLoop E array matchers = Inl e
        \<and> matchArrayBody E array matchers = Inl e
        \<and> matchNode E (Some (ArrayValue array)) (ArrayMatcher (Some matchers)) = Inl e)
   \<and> ((\<forall>(k, m') \<in> set membersBefore.
           \<exists>v'. map_of obj (unquoteString E k) = Some v'
               \<and> matchNode E (Some v') m' = Inr True)
        \<and> map_of obj (unquoteString E keyToken) = Some v
        \<and> matchNode E (Some v) m = Inl e \<longrightarrow>
        matchObjectBody E obj (membersBefore @ (keyToken, m) # membersAfter) = Inl e
        \<and> matchNode E (Some (ObjectValue obj))
            (ObjectMatcher (Some (membersBefore @ (keyToken, m) # membersAfter))) = Inl e)
   \<and> matchDefaultObject E node (MatchingObjectMatcher m) = matchNode E node m
   \<and> (map_of obj key = Some v \<and> matchNode E (Some v) m = Inl e \<longrightarrow>
        keyValueTest E key (Some m) (ObjectValue obj) = Inl e)
   \<and> ((\<forall>c' \<in> set earlier. test c' = Inr False) \<and> test c = Inl e \<longrightarrow>
        anyMatch test (earlier @ c # later) = Inl e)
   \<and> ((\<forall>c' \<in> set earlier. matchDefaultObject E (Some c') defaultMatcher = Inr False)
        \<and> matchDefaultObject E (Some c) defaultMatcher = Inl e \<longrightarrow>
        matchExtendedConstraint E (earlier @ c # later) (DefaultExtendedMatcher defaultMatcher)
          = Inl e)
   \<and> ((\<forall>c' \<in> set earlier.
           keyValueTest E (unquoteString E keyToken) keyMatcher c' = Inr False)
        \<and> keyValueTest E (unquoteString E keyToken) keyMatcher c = Inl e \<longrightarrow>
        matchExtendedConstraint E (earlier @ c # later)
          (KeyValueObjectMatcher keyToken keyMatcher) = Inl e)
   \<and> (buildSingleMatcherPredicate E
          (HasObligationOrAdviceMatcher matcherType (Some extendedMatch)) = Inr q1
        \<and> (if equalsIgnoreCase E ''obligation'' matcherType then obligations dec
            else advice dec) = Some cs
        \<and> cs \<noteq> [] \<and> matchExtendedConstraint E cs extendedMatch = Inl e \<longrightarrow>
        q1 (Some dec) = Inl e)
   \<and> (buildSingleMatcherPredicate E (HasResourceMatcher (Some defaultMatcher)) = Inr q2
        \<and> resource dec = Some r \<and> r \<noteq> UndefinedValue
        \<and> matchDefaultObject E (Some r) defaultMatcher = Inl e \<longrightarrow>
        q2 (Some dec) = Inl e)
   \<and> (p1 d = Inl e \<longrightarrow> predicateAnd p1 p2 d = Inl e)
   \<and> (p1 d = Inr True \<and> p2 d = Inl e \<longrightarrow> predicateAnd p1 p2 d = Inl e)
   \<and> (buildCombinedMatcherPredicate E (clausesBefore @ clause # clausesAfter) = Inr p
        \<and> (\<forall>m' \<in> set clausesBefore.
              \<exists>q'. buildSingleMatcherPredicate E m' = Inr q' \<and> q' (Some dec) = Inr True)
        \<and> buildSingleMatcherPredicate E clause = Inr q3 \<and> q3 (Some dec) = Inl e \<longrightarrow>
        p (Some dec) = Inl e)"
proof -
  have parse: "(parseDouble E numberToken = None \<longrightarrow>
      matchNode E (Some (NumberValue n)) (NumberMatcher (Some numberToken))
        = Inl NumberFormatException)
   \<and> ((\<forall>n. node \<noteq> Some (NumberValue n)) \<longrightarrow>
        matchNode E node (NumberMatcher (Some numberToken)) = Inr False)
   \<and> (parseInt lengthToken = None \<longrightarrow>
        matchComplexString E str (StringWithLength lengthToken) = Inl NumberFormatException
        \<and> matchString E str (ComplexStringMatcher (StringWithLength lengthToken))
            = Inl NumberFormatException
        \<and> matchNode E (Some (TextValue t))
            (TextMatcher (Some (ComplexStringMatcher (StringWithLength lengthToken))))
            = Inl NumberFormatException)
   \<and> ((\<forall>t. node \<noteq> Some (TextValue t)) \<longrightarrow>
        matchNode E node
            (TextMatcher (Some (ComplexStringMatcher (StringWithLength lengthToken))))
            = Inr False)"
    by (auto split: option.splits Value.splits)
  have arr: "length array = length matchers \<and> i < length matchers
        \<and> (\<forall>j<i. matchNode E (Some (array ! j)) (matchers ! j) = Inr True)
        \<and> matchNode E (Some (array ! i)) (matchers ! i) = Inl e \<longrightarrow>
        matchArrayLoop E array matchers = Inl e
        \<and> matchArrayBody E array matchers = Inl e
        \<and> matchNode E (Some (ArrayValue array)) (ArrayMatcher (Some matchers)) = Inl e"
    using matchArrayLoop_throws [of array matchers i E e] by simp
  have objm: "(\<forall>(k, m') \<in> set membersBefore.
           \<exists>v'. map_of obj (unquoteString E k) = Some v'
               \<and> matchNode E (Some v') m' = Inr True)
        \<and> map_of obj (unquoteString E keyToken) = Some v
        \<and> matchNode E (Some v) m = Inl e \<longrightarrow>
        matchObjectBody E obj (membersBefore @ (keyToken, m) # membersAfter) = Inl e
        \<and> matchNode E (Some (ObjectValue obj))
            (ObjectMatcher (Some (membersBefore @ (keyToken, m) # membersAfter))) = Inl e"
    using matchObjectBody_throws [of membersBefore obj E keyToken v m e membersAfter]
    by simp
  have dflt: "matchDefaultObject E node (MatchingObjectMatcher m) = matchNode E node m"
    by simp
  have kv: "map_of obj key = Some v \<and> matchNode E (Some v) m = Inl e \<longrightarrow>
        keyValueTest E key (Some m) (ObjectValue obj) = Inl e"
    by (simp add: keyValueTest_def)
  have anym: "(\<forall>c' \<in> set earlier. test c' = Inr False) \<and> test c = Inl e \<longrightarrow>
        anyMatch test (earlier @ c # later) = Inl e"
    using anyMatch_throws [of earlier test c e later] by blast
  have ext1: "(\<forall>c' \<in> set earlier. matchDefaultObject E (Some c') defaultMatcher = Inr False)
        \<and> matchDefaultObject E (Some c) defaultMatcher = Inl e \<longrightarrow>
        matchExtendedConstraint E (earlier @ c # later) (DefaultExtendedMatcher defaultMatcher)
          = Inl e"
    using anyMatch_throws [of earlier "\<lambda>c. matchDefaultObject E (Some c) defaultMatcher"
        c e later]
    by simp
  have ext2: "(\<forall>c' \<in> set earlier.
           keyValueTest E (unquoteString E keyToken) keyMatcher c' = Inr False)
        \<and> keyValueTest E (unquoteString E keyToken) keyMatcher c = Inl e \<longrightarrow>
        matchExtendedConstraint E (earlier @ c # later)
          (KeyValueObjectMatcher keyToken keyMatcher) = Inl e"
    using anyMatch_throws [of earlier "keyValueTest E (unquoteString E keyToken) keyMatcher"
        c e later]
    by (simp add: Let_def)
  have obl: "buildSingleMatcherPredicate E
          (HasObligationOrAdviceMatcher matcherType (Some extendedMatch)) = Inr q1
        \<and> (if equalsIgnoreCase E ''obligation'' matcherType then obligations dec
            else advice dec) = Some cs
        \<and> cs \<noteq> [] \<and> matchExtendedConstraint E cs extendedMatch = Inl e \<longrightarrow>
        q1 (Some dec) = Inl e"
    by (auto simp: Let_def)
  have res: "buildSingleMatcherPredicate E (HasResourceMatcher (Some defaultMatcher)) = Inr q2
        \<and> resource dec = Some r \<and> r \<noteq> UndefinedValue
        \<and> matchDefaultObject E (Some r) defaultMatcher = Inl e \<longrightarrow>
        q2 (Some dec) = Inl e"
    by (auto simp: Let_def)
  have and1: "p1 d = Inl e \<longrightarrow> predicateAnd p1 p2 d = Inl e"
    by (simp add: predicateAnd_throws_left)
  have and2: "p1 d = Inr True \<and> p2 d = Inl e \<longrightarrow> predicateAnd p1 p2 d = Inl e"
    by (simp add: predicateAnd_throws_right)
  have comb: "buildCombinedMatcherPredicate E (clausesBefore @ clause # clausesAfter) = Inr p
        \<and> (\<forall>m' \<in> set clausesBefore.
              \<exists>q'. buildSingleMatcherPredicate E m' = Inr q' \<and> q' (Some dec) = Inr True)
        \<and> buildSingleMatcherPredicate E clause = Inr q3 \<and> q3 (Some dec) = Inl e \<longrightarrow>
        p (Some dec) = Inl e"
    using combineLoop_throws [of E nonNull clausesBefore clause clausesAfter p "Some dec" q3 e]
    by (simp add: buildCombinedMatcherPredicate_def nonNull_def)
  show ?thesis
    by (intro conjI parse [THEN conjunct1] parse [THEN conjunct2, THEN conjunct1]
        parse [THEN conjunct2, THEN conjunct2, THEN conjunct1]
        parse [THEN conjunct2, THEN conjunct2, THEN conjunct2]
        arr objm dflt kv anym ext1 ext2 obl res and1 and2 comb)
qed

theorem C8_malformed_literal_witness:
  "parseDouble (exampleExternals \<lparr> parseDouble := Map.empty \<rparr>) ''abc'' = None
   \<and> matchNode (exampleExternals \<lparr> parseDouble := Map.empty \<rparr>)
        (Some (NumberValue (1, 0))) (NumberMatcher (Some ''abc'')) = Inl NumberFormatException
   \<and> (\<forall>n. Some NullValue \<noteq> Some (NumberValue n))
   \<and> matchNode (exampleExternals \<lparr> parseDouble := Map.empty \<rparr>)
        (Some NullValue) (NumberMatcher (Some ''abc'')) = Inr False
   \<and> parseInt ''1x'' = None
   \<and> matchNode (exampleExternals \<lparr> parseDouble := Map.empty \<rparr>) (Some (TextValue ''a''))
        (TextMatcher (Some (ComplexStringMatcher (StringWithLength ''1x''))))
        = Inl NumberFormatException
   \<and> (\<forall>t. Some NullValue \<noteq> Some (TextValue t))
   \<and> matchNode (exampleExternals \<lparr> parseDouble := Map.empty \<rparr>) (Some NullValue)
        (TextMatcher (Some (ComplexStringMatcher (StringWithLength ''1x''))))
        = Inr False
   \<and> parseInt ''12'' = Some 12 \<and> parseInt ''-7'' = Some (-7) \<and> parseInt ''+'' = None
   \<and> parseInt ''2147483648'' = None \<and> parseInt ''-2147483648'' = Some (-2147483648)
   \<and> matchNode (exampleExternals \<lparr> parseDouble := Map.empty \<rparr>)
        (Some (ArrayValue [NullValue, NumberValue (1, 0)]))
        (ArrayMatcher (Some [NullMatcher, NumberMatcher (Some ''abc'')]))
        = Inl NumberFormatException
   \<and> matchNode (exampleExternals \<lparr> parseDouble := Map.empty \<rparr>)
        (Some (ObjectValue [(''a'', NullValue),
                            (''n'', ArrayValue [NullValue, NumberValue (1, 0)])]))
        (ObjectMatcher (Some [(''\"a\"'', NullMatcher),
           (''\"n\"'', ArrayMatcher (Some [NullMatcher, NumberMatcher (Some ''abc'')]))]))
        = Inl NumberFormatException
   \<and> matchExtendedConstraint (exampleExternals \<lparr> parseDouble := Map.empty \<rparr>)
        [NullValue, ObjectValue [(''a'', NullValue),
                                 (''n'', ArrayValue [NullValue, NumberValue (1, 0)])]]
        (DefaultExtendedMatcher (MatchingObjectMatcher
           (ObjectMatcher (Some [(''\"a\"'', NullMatcher),
              (''\"n\"'', ArrayMatcher (Some [NullMatcher, NumberMatcher (Some ''abc'')]))]))))
        = Inl NumberFormatException
   \<and> matchExtendedConstraint (exampleExternals \<lparr> parseDouble := Map.empty \<rparr>)
        [NullValue, ObjectValue [(''a'', NullValue),
                                 (''n'', ArrayValue [NullValue, NumberValue (1, 0)])]]
        (KeyValueObjectMatcher ''\"n\"''
           (Some (ArrayMatcher (Some [NullMatcher, NumberMatcher (Some ''abc'')]))))
        = Inl NumberFormatException
   \<and> (\<exists>p. buildCombinedMatcherPredicate (exampleExternals \<lparr> parseDouble := Map.empty \<rparr>)
          [IsDecisionMatcher ''permit'',
           HasResourceMatcher (Some (MatchingObjectMatcher
             (ObjectMatcher (Some [(''\"a\"'', NullMatcher),
                (''\"n\"'', ArrayMatcher (Some [NullMatcher, NumberMatcher (Some ''abc'')]))]))))]
          = Inr p
        \<and> p (Some \<lparr> decision = PERMIT, obligations = Some [], advice = Some [],
                      resource = Some (ObjectValue [(''a'', NullValue),
                         (''n'', ArrayValue [NullValue, NumberValue (1, 0)])]) \<rparr>)
            = Inl NumberFormatException)
   \<and> (\<exists>p. buildCombinedMatcherPredicate (exampleExternals \<lparr> parseDouble := Map.empty \<rparr>)
          [IsDecisionMatcher ''permit'',
           HasObligationOrAdviceMatcher ''obligation''
             (Some (KeyValueObjectMatcher ''\"n\"''
                (Some (ArrayMatcher (Some [NullMatcher, NumberMatcher (Some ''abc'')])))))]
          = Inr p
        \<and> p (Some \<lparr> decision = PERMIT,
                      obligations = Some [NullValue, ObjectValue [(''a'', NullValue),
                         (''n'', ArrayValue [NullValue, NumberValue (1, 0)])]],
                      advice = Some [NullValue, ObjectValue [(''a'', NullValue),
                         (''n'', ArrayValue [NullValue, NumberValue (1, 0)])]],
                      resource = None \<rparr>)
            = Inl NumberFormatException)"
proof -
  let ?E = "exampleExternals \<lparr> parseDouble := Map.empty \<rparr>"
  let ?num = "NumberMatcher (Some ''abc'')"
  let ?arrM = "ArrayMatcher (Some [NullMatcher, ?num])"
  let ?arrV = "ArrayValue [NullValue, NumberValue (1, 0)]"
  let ?obj = "[(''a'', NullValue), (''n'', ?arrV)]"
  let ?objM = "ObjectMatcher (Some [(''\"a\"'', NullMatcher), (''\"n\"'', ?arrM)])"
  let ?dm = "MatchingObjectMatcher ?objM"
  let ?kv = "KeyValueObjectMatcher ''\"n\"'' (Some ?arrM)"
  let ?cs = "[NullValue, ObjectValue ?obj]"
  let ?dec1 = "\<lparr> decision = PERMIT, obligations = Some [], advice = Some [],
                 resource = Some (ObjectValue ?obj) \<rparr>"
  let ?dec2 = "\<lparr> decision = PERMIT, obligations = Some ?cs, advice = Some ?cs,
                 resource = None \<rparr>"
  have u: "unquoteString ?E ''\"a\"'' = ''a''" "unquoteString ?E ''\"n\"'' = ''n''"
    by (simp_all add: stripQuotes_def)
  have pi: "parseInt ''1x'' = None"
    by (simp add: parseInt_def isDigit_def)
  have pj: "parseInt ''12'' = Some 12 \<and> parseInt ''-7'' = Some (-7) \<and> parseInt ''+'' = None
   \<and> parseInt ''2147483648'' = None \<and> parseInt ''-2147483648'' = Some (-2147483648)"
    by (simp add: parseInt_def isDigit_def digitsValue_def)
  note A = C8_malformed_literal [where E = ?E and numberToken = "''abc''" and n = "(1, 0)"
      and node = "Some NullValue" and lengthToken = "''1x''" and str = "Some ''a''"
      and t = "''a''" and array = "[NullValue, NumberValue (1, 0)]"
      and matchers = "[NullMatcher, ?num]" and i = 1 and e = NumberFormatException
      and membersBefore = "[(''\"a\"'', NullMatcher)]" and obj = ?obj
      and keyToken = "''\"n\"''" and v = ?arrV and m = ?arrM and membersAfter = "[]"
      and key = "''n''" and earlier = "[NullValue]" and c = "ObjectValue ?obj"
      and later = "[]" and keyMatcher = "Some ?arrM"]
  have f1: "parseDouble ?E ''abc'' = None" by simp
  have f2: "matchNode ?E (Some (NumberValue (1, 0))) ?num = Inl NumberFormatException"
    using A [THEN conjunct1] f1 by (simp del: matchNode.simps)
  have f3: "matchNode ?E (Some NullValue) ?num = Inr False"
    using A [THEN conjunct2, THEN conjunct1] by (simp del: matchNode.simps)
  have f4: "matchNode ?E (Some (TextValue ''a''))
        (TextMatcher (Some (ComplexStringMatcher (StringWithLength ''1x''))))
        = Inl NumberFormatException"
    using A [THEN conjunct2, THEN conjunct2, THEN conjunct1] pi
    by (simp del: matchNode.simps matchString.simps matchComplexString.simps)
  have f5: "matchNode ?E (Some NullValue)
        (TextMatcher (Some (ComplexStringMatcher (StringWithLength ''1x'')))) = Inr False"
    using A [THEN conjunct2, THEN conjunct2, THEN conjunct2, THEN conjunct1]
    by (simp del: matchNode.simps)
  have t0: "matchNode ?E (Some NullValue) NullMatcher = Inr True" by simp
  have f6: "matchNode ?E (Some ?arrV) ?arrM = Inl NumberFormatException"
    using A [THEN conjunct2, THEN conjunct2, THEN conjunct2, THEN conjunct2, THEN conjunct1]
      f2 t0
    by (simp del: matchNode.simps matchArrayBody.simps matchArrayLoop.simps)
  have f7: "matchNode ?E (Some (ObjectValue ?obj)) ?objM = Inl NumberFormatException"
    using A [THEN conjunct2, THEN conjunct2, THEN conjunct2, THEN conjunct2, THEN conjunct2,
        THEN conjunct1] f6 t0 u
    by (simp del: matchNode.simps matchObjectBody.simps unquoteString_example)
  have f8: "keyValueTest ?E ''n'' (Some ?arrM) (ObjectValue ?obj) = Inl NumberFormatException"
    using A [THEN conjunct2, THEN conjunct2, THEN conjunct2, THEN conjunct2, THEN conjunct2,
        THEN conjunct2, THEN conjunct2, THEN conjunct1] f6
    by (simp del: matchNode.simps)
  have k0: "keyValueTest ?E ''n'' (Some ?arrM) NullValue = Inr False"
    by (simp add: keyValueTest_def)
  have f9: "matchExtendedConstraint ?E ?cs ?kv = Inl NumberFormatException"
    using A [THEN conjunct2, THEN conjunct2, THEN conjunct2, THEN conjunct2, THEN conjunct2,
        THEN conjunct2, THEN conjunct2, THEN conjunct2, THEN conjunct2, THEN conjunct2,
        THEN conjunct1] f8 k0 u
    by (simp del: matchExtendedConstraint.simps unquoteString_example)
  note B = C8_malformed_literal [where E = ?E and e = NumberFormatException
      and node = "Some (ObjectValue ?obj)" and m = ?objM
      and earlier = "[NullValue]" and c = "ObjectValue ?obj" and later = "[]"
      and defaultMatcher = ?dm and dec = ?dec1 and r = "ObjectValue ?obj"
      and clausesBefore = "[IsDecisionMatcher ''permit'']"
      and clause = "HasResourceMatcher (Some ?dm)" and clausesAfter = "[]"]
  have g1: "matchDefaultObject ?E (Some (ObjectValue ?obj)) ?dm = Inl NumberFormatException"
    using B [THEN conjunct2, THEN conjunct2, THEN conjunct2, THEN conjunct2, THEN conjunct2,
        THEN conjunct2, THEN conjunct1] f7
    by (simp del: matchNode.simps matchDefaultObject.simps)
  have g0: "matchDefaultObject ?E (Some NullValue) ?dm = Inr False" by simp
  have g2: "matchExtendedConstraint ?E ?cs (DefaultExtendedMatcher ?dm)
      = Inl NumberFormatException"
    using B [THEN conjunct2, THEN conjunct2, THEN conjunct2, THEN conjunct2, THEN conjunct2,
        THEN conjunct2, THEN conjunct2, THEN conjunct2, THEN conjunct2, THEN conjunct1] g1 g0
    by (simp del: matchExtendedConstraint.simps matchDefaultObject.simps)
  obtain q2 where q2: "buildSingleMatcherPredicate ?E (HasResourceMatcher (Some ?dm)) = Inr q2"
    by simp
  have g3: "q2 (Some ?dec1) = Inl NumberFormatException"
    using B [where ?q2.0 = q2, THEN conjunct2, THEN conjunct2, THEN conjunct2, THEN conjunct2,
        THEN conjunct2, THEN conjunct2, THEN conjunct2, THEN conjunct2, THEN conjunct2,
        THEN conjunct2, THEN conjunct2, THEN conjunct2, THEN conjunct1] q2 g1
    by (simp del: buildSingleMatcherPredicate.simps matchDefaultObject.simps)
  obtain p where p: "buildCombinedMatcherPredicate ?E
      [IsDecisionMatcher ''permit'', HasResourceMatcher (Some ?dm)] = Inr p"
    by (simp add: buildCombinedMatcherPredicate_def Let_def)
  have is1: "\<forall>m' \<in> set [IsDecisionMatcher ''permit''].
      \<exists>q'. buildSingleMatcherPredicate ?E m' = Inr q' \<and> q' (Some ?dec1) = Inr True"
    by (simp add: Let_def decisionOfToken_def)
  have g4: "p (Some ?dec1) = Inl NumberFormatException"
    using B [where p = p and ?q3.0 = q2, THEN conjunct2, THEN conjunct2, THEN conjunct2,
        THEN conjunct2, THEN conjunct2, THEN conjunct2, THEN conjunct2, THEN conjunct2,
        THEN conjunct2, THEN conjunct2, THEN conjunct2, THEN conjunct2, THEN conjunct2,
        THEN conjunct2, THEN conjunct2] p q2 g3 is1
    by (simp del: buildSingleMatcherPredicate.simps)
  note C = C8_malformed_literal [where E = ?E and e = NumberFormatException
      and matcherType = "''obligation''" and extendedMatch = ?kv and dec = ?dec2
      and cs = ?cs
      and clausesBefore = "[IsDecisionMatcher ''permit'']"
      and clause = "HasObligationOrAdviceMatcher ''obligation'' (Some ?kv)"
      and clausesAfter = "[]"]
  obtain q1 where q1: "buildSingleMatcherPredicate ?E
      (HasObligationOrAdviceMatcher ''obligation'' (Some ?kv)) = Inr q1"
    by (simp add: Let_def)
  have h1: "q1 (Some ?dec2) = Inl NumberFormatException"
    using C [where ?q1.0 = q1, THEN conjunct2, THEN conjunct2, THEN conjunct2, THEN conjunct2,
        THEN conjunct2, THEN conjunct2, THEN conjunct2, THEN conjunct2, THEN conjunct2,
        THEN conjunct2, THEN conjunct2, THEN conjunct1] q1 f9
    by (simp del: buildSingleMatcherPredicate.simps matchExtendedConstraint.simps)
  obtain p' where p': "buildCombinedMatcherPredicate ?E
      [IsDecisionMatcher ''permit'', HasObligationOrAdviceMatcher ''obligation'' (Some ?kv)]
      = Inr p'"
    by (simp add: buildCombinedMatcherPredicate_def Let_def)
  have is2: "\<forall>m' \<in> set [IsDecisionMatcher ''permit''].
      \<exists>q'. buildSingleMatcherPredicate ?E m' = Inr q' \<and> q' (Some ?dec2) = Inr True"
    by (simp add: Let_def decisionOfToken_def)
  have h2: "p' (Some ?dec2) = Inl NumberFormatException"
    using C [where p = p' and ?q3.0 = q1, THEN conjunct2, THEN conjunct2, THEN conjunct2,
        THEN conjunct2, THEN conjunct2, THEN conjunct2, THEN conjunct2, THEN conjunct2,
        THEN conjunct2, THEN conjunct2, THEN conjunct2, THEN conjunct2, THEN conjunct2,
        THEN conjunct2, THEN conjunct2] p' q1 h1 is2
    by (simp del: buildSingleMatcherPredicate.simps)
  have ex1: "\<exists>p. buildCombinedMatcherPredicate ?E
      [IsDecisionMatcher ''permit'', HasResourceMatcher (Some ?dm)] = Inr p
      \<and> p (Some ?dec1) = Inl NumberFormatException"
    using p g4 by blast
  have ex2: "\<exists>p. buildCombinedMatcherPredicate ?E
      [IsDecisionMatcher ''permit'', HasObligationOrAdviceMatcher ''obligation'' (Some ?kv)]
      = Inr p
      \<and> p (Some ?dec2) = Inl NumberFormatException"
    using p' h2 by blast
  show ?thesis
    by (intro conjI f1 f2 f3 pi f4 f5 pj [THEN conjunct1]
        pj [THEN conjunct2, THEN conjunct1]
        pj [THEN conjunct2, THEN conjunct2, THEN conjunct1]
        pj [THEN conjunct2, THEN conjunct2, THEN conjunct2, THEN conjunct1]
        pj [THEN conjunct2, THEN conjunct2, THEN conjunct2, THEN conjunct2]
        f6 f7 g2 f9 ex1 ex2) simp_all
qed

subsection \<open>Absent, empty and blank text\<close>

text \<open>
  Claim C9 says that some call site of the string matcher can supply absent text.
  The only call of \<^verbatim>\<open>matchString\<close> is in the text branch of \<^verbatim>\<open>matchNode\<close>, with the
  content of a Text value: no value makes the is-null matcher true there.
\<close>

theorem C9_null_blank_empty_counterexample:
  "\<not> (\<exists>node. matchNode exampleExternals node
          (TextMatcher (Some (ComplexStringMatcher StringIsNull))) = Inr True)"
  by (auto split: option.splits Value.splits)

text \<open>
  Claim C9, amended. \<^verbatim>\<open>matchComplexString\<close> tells absent text from empty text:
  is-null is true exactly for absent text, is-blank exactly for present text whose
  characters are all whitespace (the empty text included), is-empty exactly for
  the present empty text, is-null-or-empty exactly for absent or empty text,
  is-null-or-blank exactly for absent or blank text. Its only caller, the text
  branch of \<^verbatim>\<open>matchNode\<close>, always supplies present text: through \<^verbatim>\<open>matchNode\<close> the
  is-null matcher is false on every value, and is-null-or-empty and
  is-null-or-blank agree with is-empty and is-blank.
\<close>

theorem C9_null_blank_empty:
  "matchComplexString E text StringIsNull = Inr (text = None)
   \<and> matchComplexString E text StringIsBlank
        = Inr (\<exists>t. text = Some t \<and> (\<forall>c \<in> set t. isWhitespace c))
   \<and> matchComplexString E text StringIsEmpty = Inr (text = Some [])
   \<and> matchComplexString E text StringIsNullOrEmpty = Inr (text = None \<or> text = Some [])
   \<and> matchComplexString E text StringIsNullOrBlank
        = Inr (text = None \<or> (\<exists>t. text = Some t \<and> (\<forall>c \<in> set t. isWhitespace c)))
   \<and> matchNode E node (TextMatcher (Some (ComplexStringMatcher StringIsNull))) = Inr False
   \<and> matchNode E node (TextMatcher (Some (ComplexStringMatcher StringIsNullOrEmpty)))
        = matchNode E node (TextMatcher (Some (ComplexStringMatcher StringIsEmpty)))
   \<and> matchNode E node (TextMatcher (Some (ComplexStringMatcher StringIsNullOrBlank)))
        = matchNode E node (TextMatcher (Some (ComplexStringMatcher StringIsBlank)))"
  by (cases "text") (auto simp: isBlank_def list_all_iff split: option.splits Value.splits)

theorem C9_null_blank_empty_witness:
  "matchComplexString exampleExternals None StringIsNull = Inr True
   \<and> matchComplexString exampleExternals (Some []) StringIsNull = Inr False
   \<and> matchComplexString exampleExternals None StringIsBlank = Inr False
   \<and> matchComplexString exampleExternals (Some []) StringIsBlank = Inr True
   \<and> matchComplexString exampleExternals (Some [CHR '' '', CHR 0x09]) StringIsBlank = Inr True
   \<and> matchComplexString exampleExternals (Some '' a'') StringIsBlank = Inr False
   \<and> matchComplexString exampleExternals (Some [CHR '' '']) StringIsEmpty = Inr False
   \<and> matchComplexString exampleExternals None StringIsNullOrEmpty = Inr True
   \<and> matchComplexString exampleExternals (Some [CHR '' '']) StringIsNullOrEmpty = Inr False
   \<and> matchComplexString exampleExternals (Some [CHR '' '']) StringIsNullOrBlank = Inr True
   \<and> matchNode exampleExternals (Some (TextValue []))
        (TextMatcher (Some (ComplexStringMatcher StringIsNullOrEmpty))) = Inr True
   \<and> matchNode exampleExternals None
        (TextMatcher (Some (ComplexStringMatcher StringIsNullOrEmpty))) = Inr False"
  using C9_null_blank_empty [of exampleExternals None None]
    C9_null_blank_empty [of exampleExternals "Some []" "Some (TextValue [])"]
    C9_null_blank_empty [of exampleExternals "Some [CHR '' '', CHR 0x09]" None]
    C9_null_blank_empty [of exampleExternals "Some '' a''" None]
    C9_null_blank_empty [of exampleExternals "Some [CHR '' '']" None]
  by (simp add: isWhitespace_def)

subsection \<open>Whitespace runs\<close>

lemma compressWhitespace_no_space:
  "\<forall>c \<in> set u. \<not> isRegexSpace c \<Longrightarrow> compressWhitespace u = u"
  by (induction u) auto

lemma compressWhitespace_run:
  assumes ws: "ws \<noteq> []" "\<forall>c \<in> set ws. isRegexSpace c"
    and v: "v = [] \<or> \<not> isRegexSpace (hd v)"
  shows "u = [] \<or> \<not> isRegexSpace (last u) \<Longrightarrow>
    compressWhitespace (u @ ws @ v) = compressWhitespace u @ CHR '' '' # compressWhitespace v"
proof (induction u rule: compressWhitespace.induct)
  case 1
  obtain w ws' where w: "ws = w # ws'" using ws(1) by (cases ws) auto
  have "dropWhile isRegexSpace (ws' @ v) = dropWhile isRegexSpace v"
    using ws(2) w by (simp add: dropWhile_append)
  also have "\<dots> = v" using v by (cases v) auto
  finally show ?case using ws(2) w by simp
next
  case (2 c cs)
  show ?case
  proof (cases "isRegexSpace c")
    case True
    with "2.prems" have cs: "cs \<noteq> []" "\<not> isRegexSpace (last cs)" by (auto split: if_splits)
    then have ex: "\<exists>x \<in> set cs. \<not> isRegexSpace x" using last_in_set by blast
    then have d: "dropWhile isRegexSpace (cs @ ws @ v) = dropWhile isRegexSpace cs @ ws @ v"
      by (auto intro: dropWhile_append1)
    have ne: "dropWhile isRegexSpace cs \<noteq> []" using ex by (simp add: dropWhile_eq_Nil_conv)
    then have "last (dropWhile isRegexSpace cs) = last cs"
      by (metis takeWhile_dropWhile_id last_appendR)
    with cs ne have "dropWhile isRegexSpace cs = [] \<or> \<not> isRegexSpace (last (dropWhile isRegexSpace cs))"
      by simp
    from "2.IH"(1) [OF True this] show ?thesis using True d by simp
  next
    case False
    with "2.prems" have "cs = [] \<or> \<not> isRegexSpace (last cs)" by (auto split: if_splits)
    from "2.IH"(2) [OF False this] show ?thesis using False by simp
  qed
qed

text \<open>
  Claim C6. On a present text the equal-ignoring-whitespace-runs matcher is true
  exactly when the text with its whitespace runs collapsed equals the unquoted
  expected literal, which is compared as it is. Collapsing leaves a text without
  whitespace unchanged and replaces a maximal run of whitespace (a non-empty run
  with no whitespace character next to it on either side) by one space. The text
  \<open>a   b<TAB>c\<close> matches the expected literal \<open>a b c\<close> and the text \<open>ab c\<close> does not; the
  expected literal is not collapsed: against the expected literal with two spaces
  the text with the same two spaces is false.
\<close>

theorem C6_equal_compressed_whitespace:
  "matchComplexString E (Some t) (StringEqualCompressedWhitespace matchValue)
     = Inr (compressWhitespace t = unquoteString E matchValue)
   \<and> ((\<forall>c \<in> set u. \<not> isRegexSpace c) \<longrightarrow> compressWhitespace u = u)
   \<and> (ws \<noteq> [] \<and> (\<forall>c \<in> set ws. isRegexSpace c)
        \<and> (u = [] \<or> \<not> isRegexSpace (last u)) \<and> (v = [] \<or> \<not> isRegexSpace (hd v))
      \<longrightarrow> compressWhitespace (u @ ws @ v)
            = compressWhitespace u @ CHR '' '' # compressWhitespace v)
   \<and> (unquoteString E matchValue = ''a b c'' \<longrightarrow>
        matchComplexString E (Some (''a   b'' @ CHR 0x09 # ''c''))
          (StringEqualCompressedWhitespace matchValue) = Inr True
        \<and> matchComplexString E (Some ''ab c'')
          (StringEqualCompressedWhitespace matchValue) = Inr False)
   \<and> (unquoteString E matchValue = ''a  b'' \<longrightarrow>
        matchComplexString E (Some ''a  b'')
          (StringEqualCompressedWhitespace matchValue) = Inr False)"
proof -
  have run: "ws \<noteq> [] \<and> (\<forall>c \<in> set ws. isRegexSpace c)
        \<and> (u = [] \<or> \<not> isRegexSpace (last u)) \<and> (v = [] \<or> \<not> isRegexSpace (hd v))
      \<longrightarrow> compressWhitespace (u @ ws @ v)
            = compressWhitespace u @ CHR '' '' # compressWhitespace v"
    using compressWhitespace_run [of ws v u] by blast
  have c1: "matchComplexString E (Some t) (StringEqualCompressedWhitespace matchValue)
     = Inr (compressWhitespace t = unquoteString E matchValue)"
    by (simp add: Let_def)
  have c2: "(\<forall>c \<in> set u. \<not> isRegexSpace c) \<longrightarrow> compressWhitespace u = u"
    using compressWhitespace_no_space [of u] by blast
  have c4: "unquoteString E matchValue = ''a b c'' \<longrightarrow>
        matchComplexString E (Some (''a   b'' @ CHR 0x09 # ''c''))
          (StringEqualCompressedWhitespace matchValue) = Inr True
        \<and> matchComplexString E (Some ''ab c'')
          (StringEqualCompressedWhitespace matchValue) = Inr False"
    by (simp add: Let_def isRegexSpace_def)
  have c5: "unquoteString E matchValue = ''a  b'' \<longrightarrow>
        matchComplexString E (Some ''a  b'')
          (StringEqualCompressedWhitespace matchValue) = Inr False"
    by (simp add: Let_def isRegexSpace_def)
  show ?thesis
    by (rule conjI [OF c1 conjI [OF c2 conjI [OF run conjI [OF c4 c5]]]])
qed

theorem C6_equal_compressed_whitespace_witness:
  "unquoteString exampleExternals ''\"a b c\"'' = ''a b c''
   \<and> matchComplexString exampleExternals (Some (''a   b'' @ CHR 0x09 # ''c''))
        (StringEqualCompressedWhitespace ''\"a b c\"'') = Inr True
   \<and> matchComplexString exampleExternals (Some ''ab c'')
        (StringEqualCompressedWhitespace ''\"a b c\"'') = Inr False
   \<and> compressWhitespace (''ab'' @ [CHR '' '', CHR 0x0A, CHR '' ''] @ ''cd'') = ''ab cd''
   \<and> compressWhitespace ''abcd'' = ''abcd''"
proof -
  have u: "unquoteString exampleExternals ''\"a b c\"'' = ''a b c''"
    by (simp add: stripQuotes_def)
  have a: "\<forall>c \<in> set ''ab''. \<not> isRegexSpace c" "\<forall>c \<in> set ''cd''. \<not> isRegexSpace c"
    "\<forall>c \<in> set ''abcd''. \<not> isRegexSpace c"
    "\<forall>c \<in> set [CHR '' '', CHR 0x0A, CHR '' '']. isRegexSpace c"
    "\<not> isRegexSpace (last ''ab'')" "\<not> isRegexSpace (hd ''cd'')"
    by (simp_all add: isRegexSpace_def)
  show ?thesis
    using C6_equal_compressed_whitespace [of exampleExternals "''a''" "''\"a b c\"''" "''ab''"
        "[CHR '' '', CHR 0x0A, CHR '' '']" "''cd''"]
      C6_equal_compressed_whitespace [of exampleExternals "''a''" "''\"a b c\"''" "''cd''"
        "[CHR '' '']" "[]"]
      C6_equal_compressed_whitespace [of exampleExternals "''a''" "''\"a b c\"''" "''abcd''"
        "[CHR '' '']" "[]"]
      u a
    by (simp del: compressWhitespace.simps unquoteString_example)
qed

subsection \<open>Substrings in order\<close>

lemma occursAt_Cons_0: "occursAt (c # cs) str 0 = prefix str (c # cs)"
  by (simp add: occursAt_def)

lemma occursAt_Cons_Suc: "occursAt (c # cs) str (Suc j) = occursAt cs str j"
  by (simp add: occursAt_def)

lemma occursAt_Nil: "occursAt [] str j = (j = 0 \<and> str = [])"
  by (auto simp: occursAt_def)

lemma occursAt_length: "occursAt t str i \<Longrightarrow> i + length str \<le> length t"
  by (auto simp: occursAt_def dest: prefix_length_le)

lemma occursAt_drop:
  "start \<le> length t \<Longrightarrow> occursAt (drop start t) str j = occursAt t str (start + j)"
  by (auto simp: occursAt_def add.commute)

lemma indexOf_None_iff: "(indexOf t str = None) = (\<forall>j. \<not> occursAt t str j)"
proof (induction t)
  case Nil
  then show ?case by (auto simp: occursAt_Nil)
next
  case (Cons c cs)
  show ?case
  proof (cases "prefix str (c # cs)")
    case True
    then show ?thesis using occursAt_Cons_0 [of c cs str] by auto
  next
    case False
    have "(\<forall>j. \<not> occursAt (c # cs) str j) = (\<forall>j. \<not> occursAt cs str j)"
    proof
      assume a: "\<forall>j. \<not> occursAt (c # cs) str j"
      show "\<forall>j. \<not> occursAt cs str j"
      proof
        fix j show "\<not> occursAt cs str j" using a [rule_format, of "Suc j"]
          by (simp add: occursAt_Cons_Suc)
      qed
    next
      assume a: "\<forall>j. \<not> occursAt cs str j"
      show "\<forall>j. \<not> occursAt (c # cs) str j"
      proof
        fix j show "\<not> occursAt (c # cs) str j"
          using a False by (cases j) (simp_all add: occursAt_Cons_0 occursAt_Cons_Suc)
      qed
    qed
    then show ?thesis using False Cons.IH by simp
  qed
qed

lemma indexOf_Some_iff:
  "(indexOf t str = Some i) = (occursAt t str i \<and> (\<forall>j<i. \<not> occursAt t str j))"
proof (induction t arbitrary: i)
  case Nil
  then show ?case by (auto simp: occursAt_Nil)
next
  case (Cons c cs)
  show ?case
  proof (cases "prefix str (c # cs)")
    case True
    have "(occursAt (c # cs) str i \<and> (\<forall>j<i. \<not> occursAt (c # cs) str j)) = (i = 0)"
      using True occursAt_Cons_0 [of c cs str] by (cases i) auto
    then show ?thesis using True by auto
  next
    case False
    show ?thesis
    proof (cases i)
      case 0
      then show ?thesis using False by (auto simp: occursAt_Cons_0)
    next
      case (Suc k)
      have "(\<forall>j<Suc k. \<not> occursAt (c # cs) str j) = (\<forall>j<k. \<not> occursAt cs str j)"
        using False by (simp add: All_less_Suc2 occursAt_Cons_0 occursAt_Cons_Suc)
      then show ?thesis using False Suc Cons.IH [of k]
        by (auto simp: occursAt_Cons_Suc)
    qed
  qed
qed

lemma indexOfFrom_None_iff:
  "start \<le> length t \<Longrightarrow>
   (indexOfFrom t str start = None) = (\<forall>j\<ge>start. \<not> occursAt t str j)"
proof -
  assume s: "start \<le> length t"
  have "(\<forall>j. \<not> occursAt t str (start + j)) = (\<forall>j\<ge>start. \<not> occursAt t str j)"
    by (metis le_add1 le_Suc_ex)
  then show ?thesis
    using s by (simp add: indexOfFrom_def min_absorb1 indexOf_None_iff occursAt_drop)
qed

lemma indexOfFrom_Some_iff:
  "start \<le> length t \<Longrightarrow>
   (indexOfFrom t str start = Some i) =
     (start \<le> i \<and> occursAt t str i \<and> (\<forall>j. start \<le> j \<and> j < i \<longrightarrow> \<not> occursAt t str j))"
proof -
  assume s: "start \<le> length t"
  have "(indexOfFrom t str start = Some i)
      = (\<exists>k. i = start + k \<and> indexOf (drop start t) str = Some k)"
    using s by (auto simp: indexOfFrom_def min_absorb1)
  also have "\<dots> = (\<exists>k. i = start + k \<and> occursAt t str (start + k)
                      \<and> (\<forall>j<k. \<not> occursAt t str (start + j)))"
    using s by (simp add: indexOf_Some_iff occursAt_drop)
  also have "\<dots> = (start \<le> i \<and> occursAt t str i
                      \<and> (\<forall>j. start \<le> j \<and> j < i \<longrightarrow> \<not> occursAt t str j))"
  proof
    assume "\<exists>k. i = start + k \<and> occursAt t str (start + k)
                      \<and> (\<forall>j<k. \<not> occursAt t str (start + j))"
    then obtain k where k: "i = start + k" "occursAt t str (start + k)"
      "\<forall>j<k. \<not> occursAt t str (start + j)" by blast
    have "\<not> occursAt t str j" if "start \<le> j" "j < i" for j
    proof -
      from that k(1) obtain d where "j = start + d" "d < k"
        by (metis le_Suc_ex nat_add_left_cancel_less)
      then show ?thesis using k(3) by simp
    qed
    then show "start \<le> i \<and> occursAt t str i
                      \<and> (\<forall>j. start \<le> j \<and> j < i \<longrightarrow> \<not> occursAt t str j)"
      using k by simp
  next
    assume a: "start \<le> i \<and> occursAt t str i
                      \<and> (\<forall>j. start \<le> j \<and> j < i \<longrightarrow> \<not> occursAt t str j)"
    then obtain k where "i = start + k" using le_Suc_ex by blast
    then show "\<exists>k. i = start + k \<and> occursAt t str (start + k)
                      \<and> (\<forall>j<k. \<not> occursAt t str (start + j))"
      using a by auto
  qed
  finally show ?thesis .
qed

lemma placedInOrder_mono:
  "a \<le> b \<Longrightarrow> placedInOrder t b ss ps \<Longrightarrow> placedInOrder t a ss ps"
  by (cases ss; cases ps) auto

lemma containsInOrderLoop_placed:
  "start \<le> length t \<Longrightarrow>
   containsInOrderLoop E (Some t) start toks
     = Inr (\<exists>ps. placedInOrder t start (map (unquoteString E) toks) ps)"
proof (induction toks arbitrary: start)
  case Nil
  then show ?case by simp
next
  case (Cons tok rest)
  let ?s = "unquoteString E tok"
  let ?ss = "map (unquoteString E) rest"
  show ?case
  proof (cases "indexOfFrom t ?s start")
    case None
    then have no: "\<forall>j\<ge>start. \<not> occursAt t ?s j"
      using indexOfFrom_None_iff [OF Cons.prems] by simp
    have "\<not> placedInOrder t start (?s # ?ss) ps" for ps
      using no by (cases ps) auto
    then show ?thesis using None by (simp add: Let_def)
  next
    case (Some i)
    then have i: "start \<le> i" "occursAt t ?s i"
      "\<forall>j. start \<le> j \<and> j < i \<longrightarrow> \<not> occursAt t ?s j"
      using indexOfFrom_Some_iff [OF Cons.prems] by auto
    have le: "i + length ?s \<le> length t" using i(2) by (rule occursAt_length)
    have "(\<exists>ps. placedInOrder t start (?s # ?ss) ps)
        = (\<exists>ps. placedInOrder t (i + length ?s) ?ss ps)"
    proof
      assume "\<exists>ps. placedInOrder t start (?s # ?ss) ps"
      then obtain ps where ps: "placedInOrder t start (?s # ?ss) ps" by blast
      then obtain p ps' where p: "ps = p # ps'" by (cases ps) auto
      with ps have q: "start \<le> p" "occursAt t ?s p" "placedInOrder t (p + length ?s) ?ss ps'"
        by auto
      have "i \<le> p" using i(3) q(1,2) by (meson not_le)
      then have "placedInOrder t (i + length ?s) ?ss ps'"
        using q(3) placedInOrder_mono [of "i + length ?s" "p + length ?s"] by simp
      then show "\<exists>ps. placedInOrder t (i + length ?s) ?ss ps" by blast
    next
      assume "\<exists>ps. placedInOrder t (i + length ?s) ?ss ps"
      then obtain ps where "placedInOrder t (i + length ?s) ?ss ps" by blast
      then have "placedInOrder t start (?s # ?ss) (i # ps)" using i by simp
      then show "\<exists>ps. placedInOrder t start (?s # ?ss) ps" by blast
    qed
    then show ?thesis using Some Cons.IH [OF le] by (simp add: Let_def)
  qed
qed

lemma placedInOrder_lower:
  "placedInOrder t start ss ps \<Longrightarrow> \<forall>p \<in> set ps. start \<le> p"
proof (induction t start ss ps rule: placedInOrder.induct)
  case (3 t start s ss p ps)
  then show ?case by fastforce
qed auto

lemma placedInOrder_length:
  "placedInOrder t start ss ps \<Longrightarrow> length ps = length ss"
  by (induction t start ss ps rule: placedInOrder.induct) auto

lemma placedInOrder_sorted:
  "placedInOrder t start ss ps \<Longrightarrow> sorted ps"
proof (induction t start ss ps rule: placedInOrder.induct)
  case (3 t start s ss p ps)
  then have "\<forall>q \<in> set ps. p + length s \<le> q" using placedInOrder_lower by auto
  then show ?case using 3 by fastforce
qed auto

lemma placedInOrder_strict:
  "placedInOrder t start ss ps \<Longrightarrow> \<forall>s \<in> set ss. s \<noteq> [] \<Longrightarrow> sorted_wrt (<) ps"
proof (induction t start ss ps rule: placedInOrder.induct)
  case (3 t start s ss p ps)
  then have "\<forall>q \<in> set ps. p + length s \<le> q" using placedInOrder_lower by auto
  moreover have "0 < length s" using "3.prems" by simp
  ultimately have "\<forall>q \<in> set ps. p < q"
    by (metis add_lessD1 le_neq_implies_less less_add_same_cancel1 not_add_less1 order_le_less)
  then show ?case using 3 by simp
qed auto

text \<open>
  Claim C5 says that a true result places the substrings at strictly increasing
  positions. The search for a substring starts at the end of the previous match, and
  an empty substring is found where the search starts: on the text \<open>abc\<close> with the
  empty substring followed by \<open>abc\<close> the result is true, and there are no positions
  \<open>p1 < p2\<close> at which the two occur.
\<close>

theorem C5_contains_in_order_counterexample:
  "matchComplexString exampleExternals (Some ''abc'')
      (StringContainsInOrder [''\"\"'', ''\"abc\"'']) = Inr True
   \<and> \<not> (\<exists>p1 p2. p1 < p2 \<and> occursAt ''abc'' [] p1 \<and> occursAt ''abc'' ''abc'' p2)"
proof -
  have "p2 = 0" if "occursAt ''abc'' ''abc'' p2" for p2
    using occursAt_length [OF that] by simp
  then have "\<not> (\<exists>p1 p2. p1 < p2 \<and> occursAt ''abc'' [] p1 \<and> occursAt ''abc'' ''abc'' p2)"
    by auto
  moreover have "matchComplexString exampleExternals (Some ''abc'')
      (StringContainsInOrder [''\"\"'', ''\"abc\"'']) = Inr True"
    by (simp add: Let_def stripQuotes_def indexOfFrom_def)
  ultimately show ?thesis by simp
qed

text \<open>
  Claim C5, amended. On a present text the contains-substrings-in-order matcher is
  true exactly when the unquoted substrings can be placed in the text in their
  order, each occurring at a position at or after the end (start plus length) of
  the placement before it; the leftmost search of the loop finds such a placement
  whenever one exists. The placements do not overlap and their positions never
  decrease; they increase strictly when no substring is empty. The loop returns
  false as soon as a substring does not occur at or after the cursor. The text
  \<open>abcXdefXghi\<close> gives true for \<open>abc\<close>, \<open>ghi\<close> and false for \<open>ghi\<close>, \<open>abc\<close>.
\<close>

theorem C5_contains_in_order:
  "matchComplexString E (Some t) (StringContainsInOrder substrings)
     = Inr (\<exists>ps. placedInOrder t 0 (map (unquoteString E) substrings) ps)
   \<and> (placedInOrder t 0 ss ps \<longrightarrow>
        length ps = length ss \<and> sorted ps
        \<and> ((\<forall>s \<in> set ss. s \<noteq> []) \<longrightarrow> sorted_wrt (<) ps))
   \<and> (indexOfFrom t (unquoteString E tok) pos = None \<longrightarrow>
        containsInOrderLoop E (Some t) pos (tok # rest) = Inr False)
   \<and> (unquoteString E a = ''abc'' \<and> unquoteString E b = ''ghi'' \<longrightarrow>
        matchComplexString E (Some ''abcXdefXghi'') (StringContainsInOrder [a, b]) = Inr True
        \<and> matchComplexString E (Some ''abcXdefXghi'') (StringContainsInOrder [b, a])
            = Inr False)"
proof -
  have c1: "matchComplexString E (Some t) (StringContainsInOrder substrings)
     = Inr (\<exists>ps. placedInOrder t 0 (map (unquoteString E) substrings) ps)"
    using containsInOrderLoop_placed [of 0 t E substrings] by simp
  have c2: "placedInOrder t 0 ss ps \<longrightarrow>
        length ps = length ss \<and> sorted ps
        \<and> ((\<forall>s \<in> set ss. s \<noteq> []) \<longrightarrow> sorted_wrt (<) ps)"
    using placedInOrder_length [of t 0 ss ps] placedInOrder_sorted [of t 0 ss ps]
      placedInOrder_strict [of t 0 ss ps] by blast
  have c3: "indexOfFrom t (unquoteString E tok) pos = None \<longrightarrow>
        containsInOrderLoop E (Some t) pos (tok # rest) = Inr False"
    by (simp add: Let_def)
  have c4: "unquoteString E a = ''abc'' \<and> unquoteString E b = ''ghi'' \<longrightarrow>
        matchComplexString E (Some ''abcXdefXghi'') (StringContainsInOrder [a, b]) = Inr True
        \<and> matchComplexString E (Some ''abcXdefXghi'') (StringContainsInOrder [b, a])
            = Inr False"
    by (simp add: Let_def indexOfFrom_def)
  show ?thesis
    by (rule conjI [OF c1 conjI [OF c2 conjI [OF c3 c4]]])
qed

theorem C5_contains_in_order_witness:
  "unquoteString exampleExternals ''\"abc\"'' = ''abc''
   \<and> unquoteString exampleExternals ''\"ghi\"'' = ''ghi''
   \<and> matchComplexString exampleExternals (Some ''abcXdefXghi'')
        (StringContainsInOrder [''\"abc\"'', ''\"ghi\"'']) = Inr True
   \<and> matchComplexString exampleExternals (Some ''abcXdefXghi'')
        (StringContainsInOrder [''\"ghi\"'', ''\"abc\"'']) = Inr False
   \<and> placedInOrder ''abcXdefXghi'' 0 [''abc'', ''ghi''] [0, 8]
   \<and> sorted_wrt (<) [0 :: nat, 8]
   \<and> indexOfFrom ''abcXdefXghi'' ''abc'' 11 = None
   \<and> containsInOrderLoop exampleExternals (Some ''abcXdefXghi'') 11 [''\"abc\"''] = Inr False
   \<and> matchComplexString exampleExternals (Some ''aba'')
        (StringContainsInOrder [''\"ab\"'', ''\"ba\"'']) = Inr False"
proof -
  have u: "unquoteString exampleExternals ''\"abc\"'' = ''abc''"
    "unquoteString exampleExternals ''\"ghi\"'' = ''ghi''"
    "unquoteString exampleExternals ''\"ab\"'' = ''ab''"
    "unquoteString exampleExternals ''\"ba\"'' = ''ba''"
    by (simp_all add: stripQuotes_def)
  have p: "placedInOrder ''abcXdefXghi'' 0 [''abc'', ''ghi''] [0, 8]"
    by (simp add: occursAt_def)
  have n: "indexOfFrom ''abcXdefXghi'' ''abc'' 11 = None"
    by (simp add: indexOfFrom_def)
  have ov: "\<not> (\<exists>ps. placedInOrder ''aba'' 0 [''ab'', ''ba''] ps)"
  proof
    assume "\<exists>ps. placedInOrder ''aba'' 0 [''ab'', ''ba''] ps"
    then obtain ps where ps: "placedInOrder ''aba'' 0 [''ab'', ''ba''] ps" by blast
    then obtain p q where "ps = [p, q]"
      using placedInOrder_length [OF ps] by (cases ps; cases "tl ps") auto
    with ps have "occursAt ''aba'' ''ab'' p" "p + 2 \<le> q" "occursAt ''aba'' ''ba'' q"
      by auto
    then show False using occursAt_length [of "''aba''" "''ba''" q] by simp
  qed
  show ?thesis
    using C5_contains_in_order [of exampleExternals "''abcXdefXghi''" "[]"
        "[''abc'', ''ghi'']" "[0, 8]" "''\"abc\"''" 11 "[]" "''\"abc\"''" "''\"ghi\"''"]
      C5_contains_in_order [of exampleExternals "''aba''" "[''\"ab\"'', ''\"ba\"'']"
        "[]" "[]" "''\"abc\"''" 11 "[]" "''\"abc\"''" "''\"ghi\"''"]
      u p n ov
    by (simp del: unquoteString_example matchComplexString.simps containsInOrderLoop.simps
        placedInOrder.simps)
qed

subsection \<open>Constraints: one element suffices\<close>

text \<open>
  A matcher throws only where a literal, a length or a pattern is rejected by its
  parser, and then it is true on no value: on present text a matcher without such
  a part never throws.
\<close>

lemma containsInOrderLoop_present_Inr:
  "\<not> isl (containsInOrderLoop E (Some t) start toks)"
  by (induction toks arbitrary: start) (auto simp: Let_def split: option.splits)

lemma matchString_present_Inr:
  "\<not> malformedStringMatcher E m \<Longrightarrow> \<not> isl (matchString E (Some t) m)"
proof (cases m)
  case (ComplexStringMatcher sm)
  assume "\<not> malformedStringMatcher E m"
  then show ?thesis using ComplexStringMatcher containsInOrderLoop_present_Inr [of E t 0]
    by (cases sm) (auto simp: Let_def split: option.splits)
qed (auto simp: Let_def)

lemma matchString_True_wellformed:
  "matchString E txt m = Inr True \<Longrightarrow> \<not> malformedStringMatcher E m"
  by (induction E m rule: malformedStringMatcher.induct)
     (auto simp: Let_def split: option.splits)

lemma matchArrayLoop_Inr:
  "length array = length matchers \<Longrightarrow>
   \<forall>m \<in> set matchers. \<forall>v. \<not> isl (matchNode E (Some v) m) \<Longrightarrow>
   \<not> isl (matchArrayLoop E array matchers)"
proof (induction array matchers rule: list_induct2)
  case Nil
  then show ?case by simp
next
  case (Cons v vs m ms)
  then have "\<not> isl (matchNode E (Some v) m)" by simp
  then show ?case using Cons by (cases "matchNode E (Some v) m") auto
qed

lemma matchObjectBody_Inr:
  "\<forall>member \<in> set members. \<forall>v. \<not> isl (matchNode E (Some v) (snd member)) \<Longrightarrow>
   \<not> isl (matchObjectBody E obj members)"
proof (induction members)
  case Nil
  then show ?case by simp
next
  case (Cons km members)
  obtain k m where km: "km = (k, m)" by (cases km)
  show ?case
  proof (cases "map_of obj (unquoteString E k)")
    case None
    then show ?thesis by (simp add: km Let_def)
  next
    case (Some v)
    have "\<not> isl (matchNode E (Some v) m)" using Cons.prems km by simp
    then show ?thesis using Some Cons by (cases "matchNode E (Some v) m") (auto simp: km Let_def)
  qed
qed

lemma matchNode_wellformed_Inr:
  "\<not> malformedNode E m \<Longrightarrow> \<not> isl (matchNode E node m)"
proof (induction m arbitrary: node)
  case NullMatcher
  then show ?case by simp
next
  case (TextMatcher x)
  then show ?case
    using matchString_present_Inr
    by (cases x) (auto split: option.splits Value.splits)
next
  case (NumberMatcher x)
  then show ?case by (cases x) (auto split: option.splits Value.splits)
next
  case (BooleanMatcher x)
  then show ?case by (cases x) (auto simp: Let_def split: option.splits Value.splits)
next
  case (ArrayMatcher x)
  show ?case
  proof (cases x)
    case None
    then show ?thesis by (auto split: option.splits Value.splits)
  next
    case (Some ms)
    have "\<forall>m \<in> set ms. \<forall>v. \<not> isl (matchNode E (Some v) m)"
      using ArrayMatcher Some by auto
    then have "\<not> isl (matchArrayLoop E array ms)" if "length array = length ms" for array
      using matchArrayLoop_Inr that by blast
    then show ?thesis using Some by (auto split: option.splits Value.splits)
  qed
next
  case (ObjectMatcher x)
  show ?case
  proof (cases x)
    case None
    then show ?thesis by (auto split: option.splits Value.splits)
  next
    case (Some members)
    have "\<forall>member \<in> set members. \<forall>v. \<not> isl (matchNode E (Some v) (snd member))"
    proof (intro ballI allI)
      fix member v assume mem: "member \<in> set members"
      then have "\<not> malformedNode E (snd member)" using ObjectMatcher.prems Some by auto
      moreover have "snd member \<in> Basic_BNFs.snds member" by (cases member) simp
      ultimately show "\<not> isl (matchNode E (Some v) (snd member))"
        using ObjectMatcher.IH [of members member "snd member" "Some v"] Some mem by simp
    qed
    then have "\<not> isl (matchObjectBody E obj members)" for obj
      by (rule matchObjectBody_Inr)
    then show ?thesis using Some by (auto split: option.splits Value.splits)
  qed
next
  case OtherNodeMatcher
  then show ?case by simp
qed

lemma matchNode_True_wellformed:
  "matchNode E node m = Inr True \<Longrightarrow> \<not> malformedNode E m"
proof (induction m arbitrary: node)
  case (TextMatcher x)
  then show ?case
    using matchString_True_wellformed
    by (cases x) (auto split: option.splits Value.splits)
next
  case (NumberMatcher x)
  then show ?case by (cases x) (auto split: option.splits Value.splits)
next
  case (ArrayMatcher x)
  show ?case
  proof (cases x)
    case None
    then show ?thesis by simp
  next
    case (Some ms)
    with ArrayMatcher.prems obtain array where
      len: "length array = length ms" and loop: "matchArrayLoop E array ms = Inr True"
      by (auto split: option.splits Value.splits if_splits)
    have all: "\<forall>i<length ms. matchNode E (Some (array ! i)) (ms ! i) = Inr True"
      using matchArrayLoop_True_iff [OF len, of E] loop by simp
    have "\<not> malformedNode E m" if "m \<in> set ms" for m
    proof -
      from that obtain i where i: "i < length ms" "ms ! i = m"
        by (auto simp: in_set_conv_nth)
      then have "matchNode E (Some (array ! i)) m = Inr True" using all by auto
      then show ?thesis using ArrayMatcher.IH [of ms m] Some that by simp
    qed
    then show ?thesis using Some by simp
  qed
next
  case (ObjectMatcher x)
  show ?case
  proof (cases x)
    case None
    then show ?thesis by simp
  next
    case (Some members)
    with ObjectMatcher.prems obtain obj where
      loop: "matchObjectBody E obj members = Inr True"
      by (auto split: option.splits Value.splits)
    have "\<not> malformedNode E (snd member)" if mem: "member \<in> set members" for member
    proof -
      obtain k m where km: "member = (k, m)" by (cases member)
      then obtain v where "matchNode E (Some v) m = Inr True"
        using loop mem by (auto simp: matchObjectBody_True_iff)
      moreover have "m \<in> Basic_BNFs.snds member" using km by simp
      ultimately show ?thesis
        using ObjectMatcher.IH [of members member m "Some v"] Some mem km by simp
    qed
    then show ?thesis using Some by simp
  qed
qed simp_all

text \<open>A matcher that is true on one value throws on none.\<close>

lemma matchNode_True_never_throws:
  "matchNode E node m = Inr True \<Longrightarrow> \<not> isl (matchNode E node' m)"
  by (rule matchNode_wellformed_Inr [OF matchNode_True_wellformed])

lemma anyMatch_True_exists:
  "anyMatch p cs = Inr True \<Longrightarrow> \<exists>c \<in> set cs. p c = Inr True"
  by (induction cs) (auto split: sum.splits if_splits)

lemma anyMatch_no_throw:
  "\<forall>c \<in> set cs. \<not> isl (p c) \<Longrightarrow> anyMatch p cs = Inr (\<exists>c \<in> set cs. p c = Inr True)"
proof (induction cs)
  case Nil
  then show ?case by simp
next
  case (Cons c cs)
  then have "\<not> isl (p c)" by simp
  then show ?case using Cons by (cases "p c") auto
qed

lemma anyMatch_True_iff:
  assumes "\<And>c c'. p c = Inr True \<Longrightarrow> \<not> isl (p c')"
  shows "(anyMatch p cs = Inr True) = (\<exists>c \<in> set cs. p c = Inr True)"
proof
  assume "anyMatch p cs = Inr True"
  then show "\<exists>c \<in> set cs. p c = Inr True" by (rule anyMatch_True_exists)
next
  assume "\<exists>c \<in> set cs. p c = Inr True"
  then obtain c where c: "c \<in> set cs" "p c = Inr True" by blast
  then have "\<forall>c' \<in> set cs. \<not> isl (p c')" using assms by blast
  then show "anyMatch p cs = Inr True" using anyMatch_no_throw [of cs p] c by auto
qed

lemma keyValueTest_True_iff:
  "(keyValueTest E key matcher c = Inr True) =
     (\<exists>obj v. c = ObjectValue obj \<and> map_of obj key = Some v
        \<and> (case matcher of None \<Rightarrow> True | Some m \<Rightarrow> matchNode E (Some v) m = Inr True))"
  by (auto simp: keyValueTest_def split: Value.splits option.splits)

lemma keyValueTest_True_never_throws:
  "keyValueTest E key matcher c = Inr True \<Longrightarrow> \<not> isl (keyValueTest E key matcher c')"
proof (cases matcher)
  case None
  then show ?thesis by (auto simp: keyValueTest_def split: Value.splits option.splits)
next
  case (Some m)
  assume "keyValueTest E key matcher c = Inr True"
  then obtain v where "matchNode E (Some v) m = Inr True"
    using Some by (auto simp: keyValueTest_True_iff)
  then have "\<not> isl (matchNode E node' m)" for node'
    by (rule matchNode_True_never_throws)
  then show ?thesis using Some
    by (auto simp: keyValueTest_def split: Value.splits option.splits)
qed

lemma matchDefaultObject_True_never_throws:
  "matchDefaultObject E node m = Inr True \<Longrightarrow> \<not> isl (matchDefaultObject E node' m)"
  using matchNode_True_never_throws by (cases m) (auto simp: Let_def)

text \<open>
  Claim C7. \<^verbatim>\<open>matchExtendedConstraint\<close> is true exactly when at least one element of
  the list satisfies the matcher: for the default variant an element that
  \<^verbatim>\<open>matchDefaultObject\<close> accepts, for the key-value variant an Object that binds the
  unquoted key, to a value that the nested matcher accepts when one is given. The
  list of the objects with \<open>type\<close> \<open>log\<close> and \<open>type\<close> \<open>audit\<close> satisfies the key-value
  matcher with key \<open>type\<close> and the text \<open>audit\<close>.
\<close>

theorem C7_exists_semantics:
  "((matchExtendedConstraint E constraints (DefaultExtendedMatcher defaultObjectMatcher)
       = Inr True)
     = (\<exists>c \<in> set constraints. matchDefaultObject E (Some c) defaultObjectMatcher = Inr True))
   \<and> ((matchExtendedConstraint E constraints (KeyValueObjectMatcher keyToken matcher)
       = Inr True)
     = (\<exists>c \<in> set constraints. \<exists>obj v.
          c = ObjectValue obj \<and> map_of obj (unquoteString E keyToken) = Some v
          \<and> (case matcher of None \<Rightarrow> True | Some m \<Rightarrow> matchNode E (Some v) m = Inr True)))
   \<and> (unquoteString E keyToken = ''type'' \<and> unquoteString E textToken = ''audit'' \<longrightarrow>
        matchExtendedConstraint E
          [ObjectValue [(''type'', TextValue ''log'')],
           ObjectValue [(''type'', TextValue ''audit'')]]
          (KeyValueObjectMatcher keyToken
             (Some (TextMatcher (Some (PlainStringMatcher textToken))))) = Inr True)"
proof -
  have c1: "(matchExtendedConstraint E constraints (DefaultExtendedMatcher defaultObjectMatcher)
       = Inr True)
     = (\<exists>c \<in> set constraints. matchDefaultObject E (Some c) defaultObjectMatcher = Inr True)"
    using anyMatch_True_iff
      [of "\<lambda>c. matchDefaultObject E (Some c) defaultObjectMatcher" constraints]
      matchDefaultObject_True_never_throws [of E _ defaultObjectMatcher]
    by simp
  have c2: "(matchExtendedConstraint E constraints (KeyValueObjectMatcher keyToken matcher)
       = Inr True)
     = (\<exists>c \<in> set constraints. \<exists>obj v.
          c = ObjectValue obj \<and> map_of obj (unquoteString E keyToken) = Some v
          \<and> (case matcher of None \<Rightarrow> True | Some m \<Rightarrow> matchNode E (Some v) m = Inr True))"
    using anyMatch_True_iff
      [of "keyValueTest E (unquoteString E keyToken) matcher" constraints]
      keyValueTest_True_never_throws [of E "unquoteString E keyToken" matcher]
    by (simp add: Let_def keyValueTest_True_iff)
  have c3: "unquoteString E keyToken = ''type'' \<and> unquoteString E textToken = ''audit'' \<longrightarrow>
        matchExtendedConstraint E
          [ObjectValue [(''type'', TextValue ''log'')],
           ObjectValue [(''type'', TextValue ''audit'')]]
          (KeyValueObjectMatcher keyToken
             (Some (TextMatcher (Some (PlainStringMatcher textToken))))) = Inr True"
    by (simp add: Let_def keyValueTest_def)
  show ?thesis
    by (rule conjI [OF c1 conjI [OF c2 c3]])
qed

theorem C7_exists_semantics_witness:
  "unquoteString exampleExternals ''\"type\"'' = ''type''
   \<and> unquoteString exampleExternals ''\"audit\"'' = ''audit''
   \<and> matchExtendedConstraint exampleExternals
        [ObjectValue [(''type'', TextValue ''log'')],
         ObjectValue [(''type'', TextValue ''audit'')]]
        (KeyValueObjectMatcher ''\"type\"''
           (Some (TextMatcher (Some (PlainStringMatcher ''\"audit\"''))))) = Inr True
   \<and> matchExtendedConstraint exampleExternals
        [TextValue ''type'', ObjectValue [(''kind'', NullValue)]]
        (KeyValueObjectMatcher ''\"kind\"'' None) = Inr True
   \<and> matchExtendedConstraint exampleExternals
        [ObjectValue [(''type'', TextValue ''log'')]]
        (KeyValueObjectMatcher ''\"type\"''
           (Some (TextMatcher (Some (PlainStringMatcher ''\"audit\"''))))) = Inr False
   \<and> matchExtendedConstraint exampleExternals
        [NullValue, TextValue ''a'']
        (DefaultExtendedMatcher (MatchingObjectMatcher (TextMatcher None))) = Inr True"
proof -
  have u: "unquoteString exampleExternals ''\"type\"'' = ''type''"
    "unquoteString exampleExternals ''\"audit\"'' = ''audit''"
    "unquoteString exampleExternals ''\"kind\"'' = ''kind''"
    by (simp_all add: stripQuotes_def)
  have f: "matchExtendedConstraint exampleExternals
        [ObjectValue [(''type'', TextValue ''log'')]]
        (KeyValueObjectMatcher ''\"type\"''
           (Some (TextMatcher (Some (PlainStringMatcher ''\"audit\"''))))) = Inr False"
    by (simp add: Let_def keyValueTest_def stripQuotes_def)
  have d: "matchDefaultObject exampleExternals (Some (TextValue ''a''))
      (MatchingObjectMatcher (TextMatcher None)) = Inr True"
    by simp
  have k: "matchExtendedConstraint exampleExternals
        [TextValue ''type'', ObjectValue [(''kind'', NullValue)]]
        (KeyValueObjectMatcher ''\"kind\"'' None) = Inr True"
    using C7_exists_semantics [of exampleExternals
        "[TextValue ''type'', ObjectValue [(''kind'', NullValue)]]" OtherDefaultObjectMatcher
        "''\"kind\"''" None "''\"audit\"''"] u
    by (simp del: unquoteString_example matchExtendedConstraint.simps)
  have g: "matchExtendedConstraint exampleExternals
        [NullValue, TextValue ''a'']
        (DefaultExtendedMatcher (MatchingObjectMatcher (TextMatcher None))) = Inr True"
    using C7_exists_semantics [of exampleExternals "[NullValue, TextValue ''a'']"
        "MatchingObjectMatcher (TextMatcher None)" "''\"type\"''" None "''\"audit\"''"] d
    by (simp del: matchExtendedConstraint.simps matchDefaultObject.simps)
  have e: "matchExtendedConstraint exampleExternals
        [ObjectValue [(''type'', TextValue ''log'')],
         ObjectValue [(''type'', TextValue ''audit'')]]
        (KeyValueObjectMatcher ''\"type\"''
           (Some (TextMatcher (Some (PlainStringMatcher ''\"audit\"''))))) = Inr True"
    using C7_exists_semantics [of exampleExternals "[]" OtherDefaultObjectMatcher
        "''\"type\"''" None "''\"audit\"''"] u
    by (simp del: unquoteString_example matchExtendedConstraint.simps)
  show ?thesis using u e k f g by simp
qed

end
